theory Spec2Isabelle
  imports Complex_Main "HOL-Library.Multiset"
begin

section \<open>Errors raised by the scripts\<close>

datatype error =
    KeyError
  | ValueError
  | IndexError
  | AssertionError
  | AttributeError
  | ZeroDivisionError
  | FileNotFoundError
  | RuntimeError

section \<open>scripts/09\_data\_sampling.py\<close>


definition MIN_SAMPLES :: nat where
  "MIN_SAMPLES = 10"

text \<open>
  A row of \<open>ec_data\<close> as \<open>pd.read_csv\<close> delivers it: the index label of the row, the
  first column (\<open>row[0]\<close>, the protein identifier) and the column \<open>EC\<close> (\<open>row[1]\<close>).
  Line 37 adds the column \<open>protein\<close>.
\<close>

record ec_row =
  idx :: nat
  uniprot :: string
  EC :: string

record pc_row = ec_row +
  protein :: string

text \<open>\<open>pd.read_csv\<close> numbers the rows \<open>0, 1, 2, ...\<close> (a \<open>RangeIndex\<close>).\<close>

definition read_csv :: "(string \<times> string) list \<Rightarrow> ec_row list" where
  "read_csv lines =
     map (\<lambda>(i, (u, e)). \<lparr>idx = i, uniprot = u, EC = e\<rparr>) (enumerate 0 lines)"

text \<open>
  \<open>DataFrame.drop(labels)\<close>: removes the rows carrying one of the index labels and raises
  \<open>KeyError\<close> when a label is not in the index.
\<close>

definition drop_rows :: "nat list \<Rightarrow> ('a ec_row_scheme) list \<Rightarrow> error + ('a ec_row_scheme) list" where
  "drop_rows labels df =
     (if set labels \<subseteq> idx ` set df
      then Inr (filter (\<lambda>r. idx r \<notin> set labels) df)
      else Inl KeyError)"

definition index :: "('a ec_row_scheme) list \<Rightarrow> nat list" where
  "index df = map idx df"

text \<open>
  Lines 24--31: the loop walks over the rows of the frame as it was read, drops the rows
  whose point cloud file is not listed and collects the file names of the others.
\<close>

fun remove_rows :: "string list \<Rightarrow> ec_row list \<Rightarrow> ec_row list \<times> string list
                      \<Rightarrow> error + (ec_row list \<times> string list)" where
  "remove_rows point_clouds [] (ec_data, pcs) = Inr (ec_data, pcs)"
| "remove_rows point_clouds (row # rows) (ec_data, pcs) =
     (let protein = uniprot row @ ''.txt'' in
      if protein \<notin> set point_clouds
      then (case drop_rows [idx row] ec_data of
              Inl e \<Rightarrow> Inl e
            | Inr ec_data' \<Rightarrow> remove_rows point_clouds rows (ec_data', pcs))
      else remove_rows point_clouds rows (ec_data, pcs @ [protein]))"

text \<open>Line 37: a column assigned from a list must have the length of the frame.\<close>

definition set_protein :: "ec_row list \<Rightarrow> string list \<Rightarrow> error + pc_row list" where
  "set_protein ec_data pcs =
     (if length pcs = length ec_data
      then Inr (map (\<lambda>(r, p). \<lparr>idx = idx r, uniprot = uniprot r, EC = EC r, protein = p\<rparr>)
                    (zip ec_data pcs))
      else Inl ValueError)"

text \<open>
  Line 40: \<open>groupby('EC')['EC'].transform('count')\<close> gives every row the number of rows of
  its class; the comparison gives a boolean mask, and indexing with the mask keeps the
  rows where it is true.
\<close>

definition transform_count :: "('a ec_row_scheme) list \<Rightarrow> nat list" where
  "transform_count df = map (\<lambda>r. length (filter (\<lambda>r'. EC r' = EC r) df)) df"

definition mask_rows :: "'r list \<Rightarrow> bool list \<Rightarrow> 'r list" where
  "mask_rows df flags = map fst (filter snd (zip df flags))"

definition filter_low_counts :: "('a ec_row_scheme) list \<Rightarrow> ('a ec_row_scheme) list" where
  "filter_low_counts ec_data =
     mask_rows ec_data (map (\<lambda>c. c \<ge> MIN_SAMPLES) (transform_count ec_data))"

text \<open>Lines 20--45: the frame written to \<open>09_balanced_data_set.csv\<close>.\<close>

definition balanced_data_set :: "string list \<Rightarrow> (string \<times> string) list \<Rightarrow> error + pc_row list" where
  "balanced_data_set point_clouds lines =
     (let ec_data = read_csv lines in
      case remove_rows point_clouds ec_data (ec_data, []) of
        Inl e \<Rightarrow> Inl e
      | Inr (ec_data', pcs) \<Rightarrow>
          (case set_protein ec_data' pcs of
             Inl e \<Rightarrow> Inl e
           | Inr ec_data'' \<Rightarrow> Inr (filter_low_counts ec_data'')))"

text \<open>
  The frame as line 37 leaves it, read off the csv file: the lines whose point cloud file
  is listed, under their line numbers, with the file name in the column \<open>protein\<close>.
\<close>

definition rows_with_point_cloud :: "string list \<Rightarrow> (string \<times> string) list \<Rightarrow> pc_row list" where
  "rows_with_point_cloud point_clouds lines =
     map (\<lambda>(i, (u, e)). \<lparr>idx = i, uniprot = u, EC = e, protein = u @ ''.txt''\<rparr>)
         (filter (\<lambda>(i, (u, e)). u @ ''.txt'' \<in> set point_clouds) (enumerate 0 lines))"

text \<open>The number of rows of a class in a frame, and the rows of a class.\<close>

definition class_count :: "('a ec_row_scheme) list \<Rightarrow> string \<Rightarrow> nat" where
  "class_count df label = length (filter (\<lambda>r. EC r = label) df)"

definition class_rows :: "('a ec_row_scheme) list \<Rightarrow> string \<Rightarrow> ('a ec_row_scheme) list" where
  "class_rows df label = filter (\<lambda>r. EC r = label) df"

text \<open>Rows and a frame of one class of 101 rows to evaluate the filter on.\<close>

definition mk_row :: "string \<Rightarrow> nat \<Rightarrow> pc_row" where
  "mk_row label i = \<lparr>idx = i, uniprot = ''P'', EC = label, protein = ''P.txt''\<rparr>"


subsection \<open>The split into train, test and valid (lines 47--109)\<close>

text \<open>
  Python's \<open>round\<close> goes to the nearest integer and sends a tie to the even neighbour.
  The fractions are taken as exact rationals: \<open>0.25 * n\<close> and \<open>0.5 * n\<close> are exact in
  binary floating point, and \<open>0.2 * n\<close> lies within rounding error of \<open>n / 5\<close>, whose
  fractional part is never nearer than \<open>0.1\<close> to a tie.
\<close>

definition py_round :: "rat \<Rightarrow> int" where
  "py_round x =
     (let f = \<lfloor>x\<rfloor>; d = x - of_int f
      in if d < 1 / 2 then f else if 1 / 2 < d then f + 1 else if even f then f else f + 1)"

definition sample_size :: "rat \<Rightarrow> nat \<Rightarrow> nat" where
  "sample_size fr n = nat (py_round (fr * of_nat n))"

text \<open>
  \<open>df.sample(frac=frac, random_state=1)\<close> draws \<open>round(frac * len(df))\<close> row positions
  without replacement from a generator seeded with 1 and takes the rows at these
  positions. The generator is a parameter: \<open>choice n k\<close> are the \<open>k\<close> positions it
  draws from \<open>n\<close> rows.
\<close>

definition sample :: "(nat \<Rightarrow> nat \<Rightarrow> nat list) \<Rightarrow> rat \<Rightarrow> 'r list \<Rightarrow> error + 'r list" where
  "sample choice fr df =
     (let locs = choice (length df) (sample_size fr (length df))
      in if list_all (\<lambda>p. p < length df) locs
         then Inr (map (\<lambda>p. df ! p) locs)
         else Inl IndexError)"

definition valid_choice :: "(nat \<Rightarrow> nat \<Rightarrow> nat list) \<Rightarrow> bool" where
  "valid_choice choice \<longleftrightarrow>
     (\<forall>n k. k \<le> n \<longrightarrow>
        length (choice n k) = k \<and> distinct (choice n k) \<and> list_all (\<lambda>p. p < n) (choice n k))"

text \<open>The body of the loop over the labels for one class \<open>df\<close> (lines 61--66 and 77--80).\<close>

definition split_label :: "(nat \<Rightarrow> nat \<Rightarrow> nat list) \<Rightarrow> pc_row list
                             \<Rightarrow> error + (pc_row list \<times> pc_row list \<times> pc_row list)" where
  "split_label choice df =
     (let num_data = length df in
      if num_data \<ge> 20 then
        (case sample choice (1 / 5) df of Inl e \<Rightarrow> Inl e | Inr test \<Rightarrow>
        (case sample choice (1 / 4) test of Inl e \<Rightarrow> Inl e | Inr valid \<Rightarrow>
        (case drop_rows (index test) df of Inl e \<Rightarrow> Inl e | Inr train \<Rightarrow>
        (case drop_rows (index valid) test of Inl e \<Rightarrow> Inl e | Inr test' \<Rightarrow>
           Inr (train, test', valid)))))
      else
        (case sample choice (1 / 5) df of Inl e \<Rightarrow> Inl e | Inr test \<Rightarrow>
        (case sample choice (1 / 2) test of Inl e \<Rightarrow> Inl e | Inr valid \<Rightarrow>
        (case drop_rows (index test) df of Inl e \<Rightarrow> Inl e | Inr train \<Rightarrow>
        (case drop_rows (index valid) test of Inl e \<Rightarrow> Inl e | Inr test' \<Rightarrow>
           Inr (train, test', valid))))))"

text \<open>The loops over \<open>iterrows()\<close> that append \<open>row[0]\<close> and \<open>row[1]\<close> to a pair of lists.\<close>

fun append_rows :: "pc_row list \<Rightarrow> string list \<times> string list \<Rightarrow> string list \<times> string list" where
  "append_rows [] (xs, ys) = (xs, ys)"
| "append_rows (row # rows) (xs, ys) = append_rows rows (xs @ [uniprot row], ys @ [EC row])"

record split_lists =
  train_x :: "string list"
  train_y :: "string list"
  test_x :: "string list"
  test_y :: "string list"
  val_x :: "string list"
  val_y :: "string list"

fun split_loop :: "(nat \<Rightarrow> nat \<Rightarrow> nat list) \<Rightarrow> string list \<Rightarrow> pc_row list \<Rightarrow> split_lists
                     \<Rightarrow> error + split_lists" where
  "split_loop choice [] data acc = Inr acc"
| "split_loop choice (label # labels) data acc =
     (let df = filter (\<lambda>r. EC r = label) data in
      case split_label choice df of
        Inl e \<Rightarrow> Inl e
      | Inr (train, test, valid) \<Rightarrow>
          (let (trx, try) = append_rows train (train_x acc, train_y acc);
               (tex, tey) = append_rows test (test_x acc, test_y acc);
               (vax, vay) = append_rows valid (val_x acc, val_y acc)
           in split_loop choice labels data
                \<lparr>train_x = trx, train_y = try, test_x = tex, test_y = tey,
                 val_x = vax, val_y = vay\<rparr>))"

text \<open>\<open>Series.unique()\<close>: the distinct values in the order of their first occurrence.\<close>

definition unique :: "string list \<Rightarrow> string list" where
  "unique xs = rev (remdups (rev xs))"

definition split_data :: "(nat \<Rightarrow> nat \<Rightarrow> nat list) \<Rightarrow> pc_row list \<Rightarrow> error + split_lists" where
  "split_data choice data =
     split_loop choice (unique (map EC data)) data
       \<lparr>train_x = [], train_y = [], test_x = [], test_y = [], val_x = [], val_y = []\<rparr>"

text \<open>The frames written to \<open>09_train.csv\<close>, \<open>09_test.csv\<close> and \<open>09_valid.csv\<close>.\<close>

definition train_frame :: "split_lists \<Rightarrow> (string \<times> string) list" where
  "train_frame out = zip (train_x out) (train_y out)"

definition test_frame :: "split_lists \<Rightarrow> (string \<times> string) list" where
  "test_frame out = zip (test_x out) (test_y out)"

definition valid_frame :: "split_lists \<Rightarrow> (string \<times> string) list" where
  "valid_frame out = zip (val_x out) (val_y out)"

text \<open>The sizes of the three parts of one class.\<close>

definition split_sizes :: "(nat \<Rightarrow> nat \<Rightarrow> nat list) \<Rightarrow> pc_row list \<Rightarrow> error + (nat \<times> nat \<times> nat)" where
  "split_sizes choice df =
     (case split_label choice df of
        Inl e \<Rightarrow> Inl e
      | Inr (train, test, valid) \<Rightarrow> Inr (length train, length test, length valid))"

text \<open>A generator that draws the first positions, and frames of one class.\<close>

definition first_choice :: "nat \<Rightarrow> nat \<Rightarrow> nat list" where
  "first_choice n k = [0..<k]"

definition class_frame :: "nat \<Rightarrow> pc_row list" where
  "class_frame n = map (mk_row ''1.1.1.1'') [0..<n]"

text \<open>
  An input for the whole script: twelve lines, ten of one class; the point cloud of the
  last protein is missing.
\<close>

definition example_lines :: "(string \<times> string) list" where
  "example_lines =
     map (\<lambda>c. ([c], ''1.1.1.1'')) ''abcdefghij'' @ [(''k'', ''2.7.1.1''), (''l'', ''1.1.1.1'')]"

definition example_point_clouds :: "string list" where
  "example_point_clouds = map (\<lambda>c. [c] @ ''.txt'') ''abcdefghijk''"

text \<open>Ten lines of one class, of which nine have a point cloud.\<close>

definition sparse_lines :: "(string \<times> string) list" where
  "sparse_lines = replicate 9 (''P'', ''1.1.1.1'') @ [(''Q'', ''1.1.1.1'')]"

definition example_data :: "pc_row list" where
  "example_data =
     map (\<lambda>(i, c). \<lparr>idx = i, uniprot = [c], EC = ''1.1.1.1'', protein = [c] @ ''.txt''\<rparr>)
         (enumerate 0 ''abcdefghij'')"

section \<open>scripts/13\_mol\_transformer.py: \<open>one_hot_encoder\<close>\<close>

text \<open>
  A token batch \<open>v\<close> of shape \<open>(batch_size, seq_length)\<close> is a list of rows of token
  indices; the result of shape \<open>(batch_size, seq_length, vocab_size)\<close> is a nested list of
  reals. An indexed assignment outside the tensor raises \<open>IndexError\<close>. Token indices are
  not negative, as the vocabulary delivers them. \<open>size1\<close> is \<open>v.size(1)\<close>.
\<close>

definition zeros3 :: "nat \<Rightarrow> nat \<Rightarrow> nat \<Rightarrow> real list list list" where
  "zeros3 a b c = replicate a (replicate b (replicate c 0))"

definition size1 :: "'a list list \<Rightarrow> nat" where
  "size1 v = (case v of [] \<Rightarrow> 0 | row # _ \<Rightarrow> length row)"

definition setitem3 :: "real list list list \<Rightarrow> nat \<Rightarrow> nat \<Rightarrow> nat \<Rightarrow> real
                          \<Rightarrow> error + real list list list" where
  "setitem3 out b i t x =
     (if b < length out \<and> i < length (out ! b) \<and> t < length (out ! b ! i)
      then Inr (out[b := (out ! b)[i := (out ! b ! i)[t := x]]])
      else Inl IndexError)"

fun encode_tokens :: "nat \<Rightarrow> (nat \<times> nat) list \<Rightarrow> real list list list
                        \<Rightarrow> error + real list list list" where
  "encode_tokens batch [] out = Inr out"
| "encode_tokens batch ((i, token) # rest) out =
     (case setitem3 out batch i token 1 of
        Inl e \<Rightarrow> Inl e
      | Inr out' \<Rightarrow> encode_tokens batch rest out')"

fun encode_batches :: "nat list \<Rightarrow> nat list list \<Rightarrow> real list list list
                         \<Rightarrow> error + real list list list" where
  "encode_batches [] v out = Inr out"
| "encode_batches (batch # rest) v out =
     (case v of
        [] \<Rightarrow> Inl IndexError
      | row0 # _ \<Rightarrow>
          (case encode_tokens batch (enumerate 0 row0) out of
             Inl e \<Rightarrow> Inl e
           | Inr out' \<Rightarrow> encode_batches rest v out'))"

definition one_hot_encoder :: "nat list list \<Rightarrow> nat \<Rightarrow> error + real list list list" where
  "one_hot_encoder v vocab_size =
     (let out = zeros3 (length v) (size1 v) vocab_size
      in encode_batches [0..<length v] v out)"

text \<open>The one-hot vector of a token, and the rows the inner loop has written so far.\<close>

definition one_hot :: "nat \<Rightarrow> nat \<Rightarrow> real list" where
  "one_hot vocab_size token = (replicate vocab_size 0)[token := 1]"

fun upd_rows :: "nat \<Rightarrow> nat list \<Rightarrow> real list list \<Rightarrow> real list list" where
  "upd_rows i [] rows = rows"
| "upd_rows i (t # ts) rows = upd_rows (Suc i) ts (rows[i := (rows ! i)[t := 1]])"

definition v_example :: "nat list list" where
  "v_example = [[1, 2], [0, 0]]"

section \<open>scripts/13\_mol\_transformer.py: attention scores\<close>

text \<open>
  Tensors are nested lists of reals; \<open>softmax(dim=-1)\<close> normalises the innermost lists.
  An entry of the mask is \<open>-inf\<close> or \<open>0\<close>.
\<close>

datatype mask_entry = NegInf | Zero

definition softmax :: "real list \<Rightarrow> real list" where
  "softmax xs = map (\<lambda>x. exp x / sum_list (map exp xs)) xs"

text \<open>
  \<open>Transformer.generate_mask\<close>: \<open>torch.triu(ones * -inf, diagonal=1)\<close> keeps the entries
  with \<open>j \<ge> i + 1\<close> and writes zero elsewhere.
\<close>

definition generate_mask :: "nat \<Rightarrow> mask_entry list list" where
  "generate_mask sz = map (\<lambda>i. map (\<lambda>j. if i + 1 \<le> j then NegInf else Zero) [0..<sz]) [0..<sz]"

text \<open>
  Line 256, \<open>torch.einsum('kabc,qdef->qabe', k, q) * self.scale\<close>: the labels \<open>k\<close>, \<open>c\<close>,
  \<open>d\<close> and \<open>f\<close> are absent from the output and are summed over. \<open>k\<close> and \<open>q\<close> have the
  shape \<open>(batch_size, n_heads, seq_length, head_dim)\<close>.
\<close>

definition einsum_kabc_qdef_qabe :: "real list list list list \<Rightarrow> real list list list list
                                       \<Rightarrow> real list list list list" where
  "einsum_kabc_qdef_qabe k q =
     (let n_a = (case k of [] \<Rightarrow> 0 | k0 # _ \<Rightarrow> length k0);
          n_b = (case k of [] \<Rightarrow> 0 | k0 # _ \<Rightarrow> (case k0 of [] \<Rightarrow> 0 | k00 # _ \<Rightarrow> length k00));
          n_e = (case q of [] \<Rightarrow> 0 | q0 # _ \<Rightarrow> (case q0 of [] \<Rightarrow> 0 | q00 # _ \<Rightarrow> length q00))
      in map (\<lambda>q_q.
           map (\<lambda>a.
             map (\<lambda>b.
               map (\<lambda>e. (\<Sum>k_k \<leftarrow> k. sum_list (k_k ! a ! b)) * (\<Sum>q_d \<leftarrow> q_q. sum_list (q_d ! e)))
                   [0..<n_e])
                 [0..<n_b])
               [0..<n_a])
             q)"

text \<open>
  Lines 256--261 of \<open>SelfAttention.forward\<close>. The statement under \<open>if mask is not None\<close>
  evaluates \<open>torch.einsum('xy,abcd->abxy', mask, dp)\<close> and binds the result to no name;
  \<open>einsum\<close> does not write to its operands, so \<open>dp\<close> reaches the softmax as it was.
\<close>

definition attention_scores :: "real \<Rightarrow> mask_entry list list option \<Rightarrow> real list list list list
                                  \<Rightarrow> real list list list list \<Rightarrow> real list list list list" where
  "attention_scores scale msk k q =
     (let dp = map (map (map (map (\<lambda>x. x * scale)))) (einsum_kabc_qdef_qabe k q);
          dp = (case msk of None \<Rightarrow> dp | Some m \<Rightarrow> dp)
      in map (map (map softmax)) dp)"

text \<open>One sequence of two positions, one head, head dimension one, all entries zero.\<close>

definition zero_qk :: "real list list list list" where
  "zero_qk = [[[[0], [0]]]]"

section \<open>scripts/13\_mol\_transformer.py: loss series and plot\<close>

text \<open>
  An entry of \<open>train_loss\<close> or \<open>test_loss\<close> is a torch tensor, a Python float or, after
  the conversion of lines 754--755, a numpy array. Only a tensor has the method
  \<open>detach\<close>.
\<close>

datatype loss_value = Tensor real | PyFloat real | NdArray real

fun value_of :: "loss_value \<Rightarrow> real" where
  "value_of (Tensor x) = x"
| "value_of (PyFloat x) = x"
| "value_of (NdArray x) = x"

text \<open>
  The element expression of both comprehensions:
  \<open>x.detach().cpu().numpy() if not type(x) == float else np.array(x, dtype='f')\<close>.
\<close>

fun to_numpy :: "loss_value \<Rightarrow> error + loss_value" where
  "to_numpy (PyFloat x) = Inr (NdArray x)"
| "to_numpy (Tensor x) = Inr (NdArray x)"
| "to_numpy (NdArray x) = Inl AttributeError"

fun convert_losses :: "loss_value list \<Rightarrow> error + loss_value list" where
  "convert_losses [] = Inr []"
| "convert_losses (x # xs) =
     (case to_numpy x of
        Inl e \<Rightarrow> Inl e
      | Inr y \<Rightarrow> (case convert_losses xs of Inl e \<Rightarrow> Inl e | Inr ys \<Rightarrow> Inr (y # ys)))"

text \<open>
  \<open>plot_losses\<close>: the two curves drawn, as lists of points, and the position of the
  vertical line. \<open>min\<close> of an empty list raises \<open>ValueError\<close>.
\<close>

record plot =
  training_loss_curve :: "(nat \<times> real) list"
  test_loss_curve :: "(nat \<times> real) list"
  minposs :: nat

definition list_index :: "real list \<Rightarrow> real \<Rightarrow> nat" where
  "list_index xs x = length (takeWhile (\<lambda>y. y \<noteq> x) xs)"

definition plot_losses :: "loss_value list \<Rightarrow> loss_value list \<Rightarrow> nat \<Rightarrow> error + plot" where
  "plot_losses train_loss test_loss burn_in =
     (case map value_of test_loss of
        [] \<Rightarrow> Inl ValueError
      | t # ts \<Rightarrow>
          Inr \<lparr>training_loss_curve =
                 zip [burn_in..<length train_loss] (drop burn_in (map value_of train_loss)),
               test_loss_curve =
                 zip [burn_in..<length test_loss] (drop burn_in (map value_of test_loss)),
               minposs = list_index (t # ts) (fold min ts t) + 1\<rparr>)"

text \<open>
  Lines 754--756. Line 755 iterates over \<open>train_loss\<close>, which line 754 has just rebound
  to the converted list; the recorded \<open>test_loss\<close> is not read.
\<close>

definition plot_recorded_losses :: "loss_value list \<Rightarrow> loss_value list \<Rightarrow> error + plot" where
  "plot_recorded_losses train_loss test_loss =
     (case convert_losses train_loss of
        Inl e \<Rightarrow> Inl e
      | Inr train_loss' \<Rightarrow>
          (case convert_losses train_loss' of
             Inl e \<Rightarrow> Inl e
           | Inr test_loss' \<Rightarrow> plot_losses train_loss' test_loss' 20))"

section \<open>scripts/13\_mol\_transformer.py: \<open>smi_tokenizer\<close>\<close>

text \<open>
  The pattern is one group of alternatives, tried in this order at every position:
  \<open>\[[^\]]+]\<close>, \<open>Br?\<close>, \<open>Cl?\<close>, one of the single characters
  \<open>N O S P F I b c n o s p ( ) . = # - + \ / : ~ @ ? > * $\<close>, \<open>%[0-9]{2}\<close> and \<open>[0-9]\<close>.
  A string is a list of bytes here; a character outside ASCII is matched by no alternative
  but the bracket class \<open>[^\]]\<close>, which accepts each of its bytes, so the byte-wise matcher
  makes the same tokens as the matcher on code points.
\<close>

definition backslash :: char where
  "backslash = CHR 0x5C"

definition single_tokens :: string where
  "single_tokens = ''NOSPFIbcnosp().=#-+'' @ [backslash] @ ''/:~@?>*$''"

definition digits :: string where
  "digits = ''0123456789''"

text \<open>
  \<open>match_rest c cs\<close>: the pattern matched at a position whose first character is \<open>c\<close>
  and whose remaining input is \<open>cs\<close>; the result is the number of characters of \<open>cs\<close> that
  the match takes beyond \<open>c\<close>, or \<open>None\<close> when no alternative matches there. In the
  bracket alternative the greedy \<open>[^\]]+\<close> runs up to the next \<open>]\<close>, which must exist, and
  must take at least one character.
\<close>

definition match_rest :: "char \<Rightarrow> string \<Rightarrow> nat option" where
  "match_rest c cs =
     (if c = CHR ''['' then
        (let body = takeWhile (\<lambda>x. x \<noteq> CHR '']'') cs
         in if body \<noteq> [] \<and> length body < length cs then Some (Suc (length body)) else None)
      else if c = CHR ''B'' then
        (case cs of [] \<Rightarrow> Some 0 | x # _ \<Rightarrow> if x = CHR ''r'' then Some 1 else Some 0)
      else if c = CHR ''C'' then
        (case cs of [] \<Rightarrow> Some 0 | x # _ \<Rightarrow> if x = CHR ''l'' then Some 1 else Some 0)
      else if c \<in> set single_tokens then Some 0
      else if c = CHR ''%'' then
        (case cs of
           d1 # d2 # _ \<Rightarrow> if d1 \<in> set digits \<and> d2 \<in> set digits then Some 2 else None
         | _ \<Rightarrow> None)
      else if c \<in> set digits then Some 0
      else None)"

text \<open>
  \<open>regex.findall(smi)\<close>: the matches from left to right; a position where the pattern
  does not match is skipped, and the search goes on behind each match.
\<close>

fun findall :: "string \<Rightarrow> string list" where
  "findall [] = []"
| "findall (c # cs) =
     (case match_rest c cs of
        None \<Rightarrow> findall cs
      | Some n \<Rightarrow> (c # take n cs) # findall (drop n cs))"

text \<open>\<open>' '.join(tokens)\<close>\<close>

fun join_space :: "string list \<Rightarrow> string" where
  "join_space [] = []"
| "join_space [t] = t"
| "join_space (t # ts) = t @ '' '' @ join_space ts"

definition smi_tokenizer :: "string \<Rightarrow> error + string" where
  "smi_tokenizer smi =
     (let tokens = findall smi
      in if smi = concat tokens then Inr (join_space tokens) else Inl AssertionError)"

text \<open>
  The strings the pattern matches as a whole, read off the alternatives; a string is
  composed of matched substrings when it is the concatenation of such strings.
\<close>

definition is_token :: "string \<Rightarrow> bool" where
  "is_token t =
     (case t of
        [] \<Rightarrow> False
      | c # r \<Rightarrow>
          if c = CHR ''['' then
            r \<noteq> [] \<and> last r = CHR '']'' \<and> butlast r \<noteq> [] \<and> CHR '']'' \<notin> set (butlast r)
          else if c = CHR ''B'' then r = [] \<or> r = ''r''
          else if c = CHR ''C'' then r = [] \<or> r = ''l''
          else if c \<in> set single_tokens then r = []
          else if c = CHR ''%'' then
            (case r of [d1, d2] \<Rightarrow> d1 \<in> set digits \<and> d2 \<in> set digits | _ \<Rightarrow> False)
          else c \<in> set digits \<and> r = [])"

definition composed_of_tokens :: "string \<Rightarrow> bool" where
  "composed_of_tokens smi \<longleftrightarrow> (\<exists>ts. list_all is_token ts \<and> concat ts = smi)"

text \<open>
  No token begins with \<open>r\<close> or \<open>l\<close>, so \<open>Br?\<close> and \<open>Cl?\<close> never take the first character
  of the token that follows; \<open>starts_ok\<close> says so of the input behind a token.
\<close>

definition starts_ok :: "string \<Rightarrow> bool" where
  "starts_ok rest = (case rest of [] \<Rightarrow> True | x # _ \<Rightarrow> x \<noteq> CHR ''r'' \<and> x \<noteq> CHR ''l'')"

section \<open>scripts/13\_mol\_transformer.py: the training loop\<close>

text \<open>
  The forward and backward pass, the optimizer step, the data loaders and
  \<open>invoke\<close> with its \<open>EarlyStopping\<close> object (\<open>functions/pytorchtools.py\<close>) are not in the
  script; they are the fields of an environment. \<open>'m\<close> is the state dict of the model,
  \<open>'o\<close> the state of the optimizer, \<open>'e\<close> the state of the \<open>EarlyStopping\<close> object and
  \<open>'b\<close> a batch. The loaders shuffle, so the batches depend on the epoch.
  \<^item> \<open>train_step\<close>: lines 682--692, the new parameters, the new optimizer state and
    \<open>loss.data\<close>;
  \<^item> \<open>test_step\<close>: lines 701--706, \<open>loss.data\<close> of a batch in evaluation mode;
  \<^item> \<open>invoke\<close>: the answer of \<open>invoke(early_stopping, test_loss[-1], model, implement=True)\<close>
    and the new state of \<open>early_stopping\<close>.
\<close>

record ('m, 'o, 'e, 'b) env =
  train_step :: "'m \<Rightarrow> 'o \<Rightarrow> 'b \<Rightarrow> 'm \<times> 'o \<times> real"
  test_step :: "'m \<Rightarrow> 'b \<Rightarrow> real"
  train_loader :: "nat \<Rightarrow> 'b list"
  test_loader :: "nat \<Rightarrow> 'b list"
  invoke :: "'e \<Rightarrow> real \<Rightarrow> 'm \<Rightarrow> bool \<times> 'e"

datatype summary_line = EpochLine nat real real | EarlyStoppingLine nat

text \<open>
  The variables of the loop and the two files it writes: \<open>saved_model\<close> is the file
  \<open>results/13_mol_transformer\<close> (\<open>None\<close> while it does not exist), \<open>summary_file\<close> is
  \<open>results/13_summary.txt\<close>.
\<close>

record ('m, 'o, 'e) train_state =
  model :: 'm
  optimizer :: 'o
  early_stopping :: 'e
  saved_model :: "'m option"
  train_loss :: "loss_value list"
  test_loss :: "loss_value list"
  summary :: "summary_line list"
  summary_file :: "summary_line list"


text \<open>Lines 680--692 and 699--706: the loops over the batches, which add up \<open>batch_loss\<close>.\<close>

fun train_batches :: "('m, 'o, 'e, 'b) env \<Rightarrow> 'b list \<Rightarrow> 'm \<Rightarrow> 'o \<Rightarrow> real \<Rightarrow> 'm \<times> 'o \<times> real" where
  "train_batches env [] m opt batch_loss = (m, opt, batch_loss)"
| "train_batches env (b # bs) m opt batch_loss =
     (case train_step env m opt b of
        (m', opt', loss) \<Rightarrow> train_batches env bs m' opt' (batch_loss + loss))"

fun test_batches :: "('m, 'o, 'e, 'b) env \<Rightarrow> 'b list \<Rightarrow> 'm \<Rightarrow> real \<Rightarrow> real" where
  "test_batches env [] m batch_loss = batch_loss"
| "test_batches env (b # bs) m batch_loss =
     test_batches env bs m (batch_loss + test_step env m b)"

text \<open>
  \<open>batch_loss / len(loader)\<close>: without a batch \<open>batch_loss\<close> is still the integer 0 and the
  division \<open>0 / 0\<close> raises; otherwise the quotient is a tensor.
\<close>

definition mean_loss :: "real \<Rightarrow> nat \<Rightarrow> error + loss_value" where
  "mean_loss batch_loss n =
     (if n = 0 then Inl ZeroDivisionError else Inr (Tensor (batch_loss / real n)))"

text \<open>Lines 678--720 of one epoch, up to the answer of \<open>invoke\<close>.\<close>

definition run_epoch :: "('m, 'o, 'e, 'b) env \<Rightarrow> nat \<Rightarrow> ('m, 'o, 'e) train_state
                           \<Rightarrow> error + (bool \<times> ('m, 'o, 'e) train_state)" where
  "run_epoch env epoch s =
     (case train_batches env (train_loader env epoch) (model s) (optimizer s) 0 of
        (m, opt, batch_loss) \<Rightarrow>
          (case mean_loss batch_loss (length (train_loader env epoch)) of
             Inl e \<Rightarrow> Inl e
           | Inr tr \<Rightarrow>
               (case mean_loss (test_batches env (test_loader env epoch) m 0)
                               (length (test_loader env epoch)) of
                  Inl e \<Rightarrow> Inl e
                | Inr te \<Rightarrow>
                    (case invoke env (early_stopping s) (value_of te) m of
                       (stop, es) \<Rightarrow>
                         Inr (stop,
                              s\<lparr>model := m, optimizer := opt, early_stopping := es,
                                train_loss := train_loss s @ [tr],
                                test_loss := test_loss s @ [te],
                                summary := summary s
                                  @ [EpochLine epoch (value_of tr) (value_of te)]\<rparr>)))))"

text \<open>
  Lines 720--725: \<open>torch.load\<close> of the saved file (which raises when the file does not
  exist), \<open>load_state_dict\<close> and the line added to the summary before \<open>break\<close>.
\<close>

definition restore :: "nat \<Rightarrow> ('m, 'o, 'e) train_state \<Rightarrow> error + ('m, 'o, 'e) train_state" where
  "restore epoch s =
     (case saved_model s of
        None \<Rightarrow> Inl FileNotFoundError
      | Some m \<Rightarrow> Inr (s\<lparr>model := m, summary := summary s @ [EarlyStoppingLine epoch]\<rparr>))"

text \<open>Lines 727--733: the state dict and the summary are written to their files.\<close>

definition save :: "('m, 'o, 'e) train_state \<Rightarrow> ('m, 'o, 'e) train_state" where
  "save s = s\<lparr>saved_model := Some (model s), summary_file := summary s\<rparr>"

text \<open>
  How the loop ends: after the last epoch, by \<open>break\<close> in an epoch, or by an exception
  raised in an epoch.
\<close>

datatype 's outcome = Completed 's | EarlyStopped nat 's | Raised nat error

fun training_loop :: "('m, 'o, 'e, 'b) env \<Rightarrow> nat list \<Rightarrow> ('m, 'o, 'e) train_state
                        \<Rightarrow> ('m, 'o, 'e) train_state outcome" where
  "training_loop env [] s = Completed s"
| "training_loop env (epoch # epochs) s =
     (case run_epoch env epoch s of
        Inl e \<Rightarrow> Raised epoch e
      | Inr (stop, s1) \<Rightarrow>
          if stop then
            (case restore epoch s1 of
               Inl e \<Rightarrow> Raised epoch e
             | Inr s2 \<Rightarrow> EarlyStopped epoch s2)
          else training_loop env epochs (save s1))"









section \<open>scripts/13\_mol\_transformer.py: \<open>Transformer.forward\<close>\<close>

subsection \<open>Shapes\<close>

text \<open>
  Which tensor shapes the forward pass goes through and where it raises depends on the
  shapes of its inputs and on the token values alone. The functions of this subsection
  follow the modules on shapes (lists of dimensions); the model is the one built in lines
  653--665: embedding dimension 512, 8 heads, 8 encoder and 8 decoder blocks, positional
  encodings for at most 5000 positions.
\<close>

type_synonym shape = "nat list"

definition embed_dim :: nat where "embed_dim = 512"
definition n_heads :: nat where "n_heads = 8"
definition head_dim :: nat where "head_dim = embed_dim div n_heads"
definition max_len :: nat where "max_len = 5000"
definition encoder_depth :: nat where "encoder_depth = 8"
definition decoder_depth :: nat where "decoder_depth = 8"

text \<open>Two dimensions are broadcast when they agree or one of them is 1.\<close>

definition broadcast_dim :: "nat \<Rightarrow> nat \<Rightarrow> error + nat" where
  "broadcast_dim a b =
     (if a = b then Inr a else if a = 1 then Inr b else if b = 1 then Inr a
      else Inl RuntimeError)"

fun broadcast :: "shape \<Rightarrow> shape \<Rightarrow> error + shape" where
  "broadcast [] [] = Inr []"
| "broadcast (a # as) (b # bs) =
     (case broadcast_dim a b of
        Inl e \<Rightarrow> Inl e
      | Inr d \<Rightarrow> (case broadcast as bs of Inl e \<Rightarrow> Inl e | Inr ds \<Rightarrow> Inr (d # ds)))"
| "broadcast _ _ = Inl RuntimeError"

text \<open>\<open>nn.Linear(in_features, out_features)\<close> and \<open>nn.LayerNorm(dim)\<close> act on the last
  dimension, which must have the size they were built for.\<close>

definition Linear_shape :: "nat \<Rightarrow> nat \<Rightarrow> shape \<Rightarrow> error + shape" where
  "Linear_shape in_features out_features x =
     (if x \<noteq> [] \<and> last x = in_features then Inr (butlast x @ [out_features])
      else Inl RuntimeError)"

definition LayerNorm_shape :: "nat \<Rightarrow> shape \<Rightarrow> error + shape" where
  "LayerNorm_shape dm x = (if x \<noteq> [] \<and> last x = dm then Inr x else Inl RuntimeError)"

text \<open>
  \<open>Embedding.forward\<close>, for a token batch \<open>x\<close> with \<open>x.shape = x_shape\<close>: a token
  outside the vocabulary raises \<open>IndexError\<close>; the result is permuted to
  \<open>(seq_length, batch_size, embed_dim)\<close>.
\<close>

definition Embedding_shape :: "nat \<Rightarrow> shape \<Rightarrow> nat list list \<Rightarrow> error + shape" where
  "Embedding_shape vocab_size x_shape x =
     (if list_all (list_all (\<lambda>token. token < vocab_size)) x
      then (case x_shape of
              [batch_size, seq_length] \<Rightarrow> Inr [seq_length, batch_size, embed_dim]
            | _ \<Rightarrow> Inl RuntimeError)
      else Inl IndexError)"

text \<open>
  \<open>PositionalEncoding.forward\<close>: \<open>self.pe[:x.size(0)]\<close> has at most \<open>max_len\<close> rows, and
  the sum broadcasts it against \<open>x\<close>.
\<close>

definition PositionalEncoding_shape :: "shape \<Rightarrow> error + shape" where
  "PositionalEncoding_shape x =
     (case x of
        [] \<Rightarrow> Inl IndexError
      | d0 # _ \<Rightarrow> broadcast x [min d0 max_len, 1, embed_dim])"

text \<open>
  \<open>SelfAttention.forward\<close>: the output and the shape shared by \<open>q\<close>, \<open>k\<close> and \<open>v\<close>. The
  names \<open>batch_size\<close> and \<open>n_tokens\<close> are those of the source, which unpacks the shape
  \<open>(seq_len, batch_size, dim)\<close> in this order (\<open>dm\<close> stands for its \<open>dim\<close>). No two operands of the einsum calls share
  a label, so they put no condition on the shapes.
\<close>

definition SelfAttention_shape :: "shape \<Rightarrow> error + (shape \<times> shape)" where
  "SelfAttention_shape x =
     (case x of
        [batch_size, n_tokens, dm] \<Rightarrow>
          if dm \<noteq> embed_dim then Inl ValueError
          else
            (case Linear_shape embed_dim (embed_dim * 3) x of
               Inl e \<Rightarrow> Inl e
             | Inr qkv \<Rightarrow>
                 if prod_list qkv \<noteq> batch_size * n_tokens * 3 * n_heads * head_dim
                 then Inl RuntimeError
                 else
                   (let q = [n_tokens, n_heads, batch_size, head_dim];
                        dp = [n_tokens, n_heads, batch_size, batch_size];
                        weighted_avg = [batch_size, n_tokens, n_heads * head_dim]
                    in case Linear_shape embed_dim embed_dim weighted_avg of
                         Inl e \<Rightarrow> Inl e
                       | Inr x' \<Rightarrow> Inr (x', q)))
      | _ \<Rightarrow> Inl ValueError)"

text \<open>
  \<open>EncoderDecoderAttention.forward\<close>: \<open>'abkd,abqd->abqk'\<close> broadcasts the batch, head and
  feature dimensions of \<open>k\<close> and \<open>q\<close>; \<open>'abts,abse->tabe'\<close> those of the scores and \<open>v\<close>
  and the source length.
\<close>

definition EncoderDecoderAttention_shape :: "shape \<Rightarrow> shape \<Rightarrow> shape \<Rightarrow> error + shape" where
  "EncoderDecoderAttention_shape x k v =
     (case x of
        [batch_size, n_tokens, dm] \<Rightarrow>
          if dm \<noteq> embed_dim then Inl ValueError
          else
            (case (k, v) of
               ([k_a, k_b, k_k, k_d], [v_a, v_b, v_s, v_e]) \<Rightarrow>
                 (case broadcast [k_a, k_b, k_d] [n_tokens, n_heads, head_dim] of
                    Inr [a, b, d] \<Rightarrow>
                      (case broadcast [a, b, k_k] [v_a, v_b, v_s] of
                         Inr [a', b', s] \<Rightarrow>
                           Linear_shape embed_dim embed_dim [batch_size, a', b' * v_e]
                       | Inr _ \<Rightarrow> Inl RuntimeError
                       | Inl e \<Rightarrow> Inl e)
                  | Inr _ \<Rightarrow> Inl RuntimeError
                  | Inl e \<Rightarrow> Inl e)
             | _ \<Rightarrow> Inl RuntimeError)
      | _ \<Rightarrow> Inl ValueError)"

definition MLP_shape :: "shape \<Rightarrow> error + shape" where
  "MLP_shape x =
     (case Linear_shape embed_dim (4 * embed_dim) x of
        Inl e \<Rightarrow> Inl e
      | Inr h \<Rightarrow> Linear_shape (4 * embed_dim) embed_dim h)"

text \<open>A residual sum followed by a layer normalisation.\<close>

definition add_norm_shape :: "shape \<Rightarrow> shape \<Rightarrow> error + shape" where
  "add_norm_shape a b =
     (case broadcast a b of Inl e \<Rightarrow> Inl e | Inr s \<Rightarrow> LayerNorm_shape embed_dim s)"

definition EncoderBlock_shape :: "shape \<Rightarrow> error + (shape \<times> shape)" where
  "EncoderBlock_shape x =
     (case SelfAttention_shape x of
        Inl e \<Rightarrow> Inl e
      | Inr (attn, kv) \<Rightarrow>
          (case add_norm_shape attn x of
             Inl e \<Rightarrow> Inl e
           | Inr attn_add_norm \<Rightarrow>
               (case MLP_shape attn_add_norm of
                  Inl e \<Rightarrow> Inl e
                | Inr z \<Rightarrow>
                    (case add_norm_shape z attn_add_norm of
                       Inl e \<Rightarrow> Inl e
                     | Inr out \<Rightarrow> Inr (out, kv)))))"

definition DecoderBlock_shape :: "shape \<Rightarrow> shape \<Rightarrow> shape \<Rightarrow> error + shape" where
  "DecoderBlock_shape x k v =
     (case SelfAttention_shape x of
        Inl e \<Rightarrow> Inl e
      | Inr (attn, _) \<Rightarrow>
          (case add_norm_shape attn x of
             Inl e \<Rightarrow> Inl e
           | Inr attn_add_norm \<Rightarrow>
               (case EncoderDecoderAttention_shape attn_add_norm k v of
                  Inl e \<Rightarrow> Inl e
                | Inr attn' \<Rightarrow>
                    (case add_norm_shape attn' x of
                       Inl e \<Rightarrow> Inl e
                     | Inr attn_add_norm' \<Rightarrow>
                         (case MLP_shape attn_add_norm' of
                            Inl e \<Rightarrow> Inl e
                          | Inr z \<Rightarrow> add_norm_shape z attn_add_norm')))))"

text \<open>The loops over the encoder and the decoder blocks (lines 633--634 and 640--641).\<close>

fun encoder_blocks_shape :: "nat \<Rightarrow> shape \<Rightarrow> shape \<Rightarrow> error + (shape \<times> shape)" where
  "encoder_blocks_shape 0 src kv = Inr (src, kv)"
| "encoder_blocks_shape (Suc n) src kv =
     (case EncoderBlock_shape src of
        Inl e \<Rightarrow> Inl e
      | Inr (src', kv') \<Rightarrow> encoder_blocks_shape n src' kv')"

fun decoder_blocks_shape :: "nat \<Rightarrow> shape \<Rightarrow> shape \<Rightarrow> error + shape" where
  "decoder_blocks_shape 0 tgt kv = Inr tgt"
| "decoder_blocks_shape (Suc n) tgt kv =
     (case DecoderBlock_shape tgt kv kv of
        Inl e \<Rightarrow> Inl e
      | Inr tgt' \<Rightarrow> decoder_blocks_shape n tgt' kv)"

text \<open>
  \<open>Transformer.forward\<close>, lines 619--647, for \<open>src.shape = src_shape\<close> and
  \<open>tgt.shape = tgt_shape\<close>. The masks do not change a shape. The encoder has at least one
  block, so \<open>k\<close> and \<open>v\<close> are bound when the decoder starts.
\<close>

definition forward_shape :: "nat \<Rightarrow> shape \<Rightarrow> nat list list \<Rightarrow> shape \<Rightarrow> nat list list
                              \<Rightarrow> error + shape" where
  "forward_shape vocab_size src_shape src tgt_shape tgt =
     (case Embedding_shape vocab_size src_shape src of
        Inl e \<Rightarrow> Inl e
      | Inr src_embed \<Rightarrow>
     (case PositionalEncoding_shape src_embed of
        Inl e \<Rightarrow> Inl e
      | Inr src' \<Rightarrow>
     (case encoder_blocks_shape encoder_depth src' [] of
        Inl e \<Rightarrow> Inl e
      | Inr (_, kv) \<Rightarrow>
     (case Embedding_shape vocab_size tgt_shape tgt of
        Inl e \<Rightarrow> Inl e
      | Inr tgt_embed \<Rightarrow>
     (case PositionalEncoding_shape tgt_embed of
        Inl e \<Rightarrow> Inl e
      | Inr tgt' \<Rightarrow>
     (case decoder_blocks_shape decoder_depth tgt' kv of
        Inl e \<Rightarrow> Inl e
      | Inr tgt'' \<Rightarrow>
     (case Linear_shape embed_dim vocab_size tgt'' of
        Inl e \<Rightarrow> Inl e
      | Inr out \<Rightarrow>
          (case out of
             [d0, d1, d2] \<Rightarrow> Inr [d1, d0, d2]
           | _ \<Rightarrow> Inl RuntimeError))))))))"

subsection \<open>The values of the last layer\<close>

text \<open>
  Lines 643--645 on values: \<open>tgt\<close> is the output of the last decoder block, of shape
  \<open>(tgt_seq_len, batch_size, embed_dim)\<close>; \<open>weight\<close> (one row for each entry of the
  vocabulary) and \<open>bias\<close> are the parameters of \<open>self.head\<close>. The numbers are reals.
\<close>

definition Linear :: "real list list \<Rightarrow> real list \<Rightarrow> real list \<Rightarrow> real list" where
  "Linear weight bias x = map (\<lambda>(w, b). sum_list (map (\<lambda>(wi, xi). wi * xi) (zip w x)) + b) (zip weight bias)"

text \<open>\<open>permute(1, 0, 2)\<close> of a tensor whose second dimension has the size \<open>n1\<close>.\<close>

definition permute_1_0_2 :: "nat \<Rightarrow> 'a list list \<Rightarrow> 'a list list" where
  "permute_1_0_2 n1 x = map (\<lambda>b. map (\<lambda>row. row ! b) x) [0..<n1]"

definition output_layer :: "real list list \<Rightarrow> real list \<Rightarrow> nat \<Rightarrow> real list list list
                              \<Rightarrow> real list list list" where
  "output_layer weight bias batch_size tgt =
     (let out = map (map (Linear weight bias)) tgt;
          out = map (map softmax) out
      in permute_1_0_2 batch_size out)"

text \<open>A batch of one source and one target sequence, and a last layer for two tokens.\<close>

definition src_example :: "nat list list" where
  "src_example = [[0, 1]]"

definition tgt_example :: "nat list list" where
  "tgt_example = [[1, 0, 1]]"

definition long_tgt :: "nat list list" where
  "long_tgt = [replicate 5001 0]"

section \<open>Proofs\<close>

subsection \<open>The low-count filter\<close>

lemma mask_rows_map: "mask_rows df (map p df) = filter p df"
  by (induction df) (simp_all add: mask_rows_def)

lemma filter_low_counts_filter:
  "filter_low_counts df = filter (\<lambda>r. MIN_SAMPLES \<le> class_count df (EC r)) df"
proof -
  have "map (\<lambda>c. c \<ge> MIN_SAMPLES) (transform_count df)
        = map (\<lambda>r. MIN_SAMPLES \<le> class_count df (EC r)) df"
    by (simp add: transform_count_def class_count_def)
  then show ?thesis
    by (simp add: filter_low_counts_def mask_rows_map)
qed

lemma class_rows_filter_low_counts:
  "class_rows (filter_low_counts df) label =
     (if MIN_SAMPLES \<le> class_count df label then class_rows df label else [])"
proof -
  have "filter (\<lambda>r. EC r = label) (filter (\<lambda>r. MIN_SAMPLES \<le> class_count df (EC r)) df)
        = filter (\<lambda>r. MIN_SAMPLES \<le> class_count df label \<and> EC r = label) df"
    by (simp add: conj_commute cong: conj_cong)
  then show ?thesis
    by (simp add: class_rows_def filter_low_counts_filter)
qed

lemma class_count_filter_low_counts:
  "class_count (filter_low_counts df) label =
     (if MIN_SAMPLES \<le> class_count df label then class_count df label else 0)"
  using class_rows_filter_low_counts [of df label]
  by (simp add: class_rows_def class_count_def split: if_splits)

lemma filter_low_counts_min_samples:
  "(\<forall>label \<in> EC ` set (filter_low_counts df).
       MIN_SAMPLES \<le> class_count (filter_low_counts df) label)
   \<and> (\<forall>r \<in> set df. MIN_SAMPLES \<le> class_count df (EC r) \<longrightarrow> r \<in> set (filter_low_counts df))"
proof (intro conjI ballI impI)
  fix label
  assume "label \<in> EC ` set (filter_low_counts df)"
  then obtain r where r: "r \<in> set df" "MIN_SAMPLES \<le> class_count df (EC r)" "label = EC r"
    by (auto simp: filter_low_counts_filter)
  then show "MIN_SAMPLES \<le> class_count (filter_low_counts df) label"
    by (simp add: class_count_filter_low_counts)
next
  fix r
  assume "r \<in> set df" "MIN_SAMPLES \<le> class_count df (EC r)"
  then show "r \<in> set (filter_low_counts df)"
    by (simp add: filter_low_counts_filter)
qed


lemma class_count_append:
  "class_count (xs @ ys) label = class_count xs label + class_count ys label"
  by (simp add: class_count_def)



subsection \<open>\<open>one_hot_encoder\<close>\<close>

lemma length_upd_rows [simp]: "length (upd_rows i ts rows) = length rows"
  by (induction ts arbitrary: i rows) simp_all

lemma nth_upd_rows:
  "j < length rows \<Longrightarrow>
   upd_rows i ts rows ! j =
     (if i \<le> j \<and> j < i + length ts then (rows ! j)[ts ! (j - i) := 1] else rows ! j)"
proof (induction ts arbitrary: i rows)
  case Nil
  then show ?case by auto
next
  case (Cons t ts)
  show ?case
  proof (cases "j = i")
    case True
    with Cons show ?thesis by simp
  next
    case False
    with Cons show ?thesis by (auto simp: nth_Cons')
  qed
qed

lemma encode_tokens_upd_rows:
  "b < length out \<Longrightarrow> i + length ts \<le> length (out ! b) \<Longrightarrow>
   \<forall>k < length ts. ts ! k < length (out ! b ! (i + k)) \<Longrightarrow>
   encode_tokens b (enumerate i ts) out = Inr (out[b := upd_rows i ts (out ! b)])"
proof (induction ts arbitrary: i out)
  case Nil
  then show ?case by simp
next
  case (Cons t ts)
  let ?out' = "out[b := (out ! b)[i := (out ! b ! i)[t := 1]]]"
  from Cons.prems have t: "t < length (out ! b ! i)" by force
  from Cons.prems have i: "i < length (out ! b)" by simp
  have step: "setitem3 out b i t 1 = Inr ?out'"
    using Cons.prems(1) i t by (simp add: setitem3_def)
  have b': "b < length ?out'" using Cons.prems(1) by simp
  have row: "?out' ! b = (out ! b)[i := (out ! b ! i)[t := 1]]"
    using Cons.prems(1) by simp
  have len: "Suc i + length ts \<le> length (?out' ! b)"
    using Cons.prems(2) row by simp
  have toks: "\<forall>k < length ts. ts ! k < length (?out' ! b ! (Suc i + k))"
  proof (intro allI impI)
    fix k assume k: "k < length ts"
    with Cons.prems(3) have "(t # ts) ! Suc k < length (out ! b ! (i + Suc k))"
      by (metis Suc_less_eq length_Cons)
    then show "ts ! k < length (?out' ! b ! (Suc i + k))"
      using row by simp
  qed
  from Cons.IH [OF b' len toks] step row show ?case by simp
qed

lemma upd_rows_zeros:
  "\<forall>t \<in> set ts. t < vocab_size \<Longrightarrow>
   upd_rows 0 ts (replicate (length ts) (replicate vocab_size 0)) = map (one_hot vocab_size) ts"
  by (rule nth_equalityI) (simp_all add: nth_upd_rows one_hot_def)

lemma encode_batches_rows:
  assumes "distinct bs" "\<forall>b \<in> set bs. b < length out"
    and "\<forall>b \<in> set bs. out ! b = replicate (length row0) (replicate vocab_size 0)"
    and "\<forall>t \<in> set row0. t < vocab_size"
  shows "\<exists>res. encode_batches bs (row0 # rows) out = Inr res \<and> length res = length out
           \<and> (\<forall>b < length out. res ! b =
                  (if b \<in> set bs then map (one_hot vocab_size) row0 else out ! b))"
  using assms(1-3)
proof (induction bs arbitrary: out)
  case Nil
  then show ?case by simp
next
  case (Cons b bs)
  let ?out' = "out[b := upd_rows 0 row0 (out ! b)]"
  have b: "b < length out" and zero: "out ! b = replicate (length row0) (replicate vocab_size 0)"
    using Cons.prems by simp_all
  have "\<forall>k < length row0. row0 ! k < length (out ! b ! (0 + k))"
    using assms(4) zero by simp
  then have inner: "encode_tokens b (enumerate 0 row0) out = Inr ?out'"
    using encode_tokens_upd_rows [of b out 0 row0] b zero by simp
  have row_b: "?out' ! b = map (one_hot vocab_size) row0"
    using b zero upd_rows_zeros [OF assms(4)] by simp
  have d: "distinct bs" and nb: "b \<notin> set bs" using Cons.prems(1) by simp_all
  have lt: "\<forall>c \<in> set bs. c < length ?out'" using Cons.prems(2) by simp
  have zs: "\<forall>c \<in> set bs. ?out' ! c = replicate (length row0) (replicate vocab_size 0)"
  proof
    fix c assume c: "c \<in> set bs"
    with nb have "c \<noteq> b" by blast
    then have "?out' ! c = out ! c" by simp
    also have "\<dots> = replicate (length row0) (replicate vocab_size 0)"
      using Cons.prems(3) c by simp
    finally show "?out' ! c = replicate (length row0) (replicate vocab_size 0)" .
  qed
  from Cons.IH [OF d lt zs] obtain res where
    res: "encode_batches bs (row0 # rows) ?out' = Inr res" "length res = length ?out'"
      "\<forall>c < length ?out'. res ! c =
         (if c \<in> set bs then map (one_hot vocab_size) row0 else ?out' ! c)"
    by blast
  have "encode_batches (b # bs) (row0 # rows) out = Inr res"
    using inner res(1) by simp
  moreover have "length res = length out" using res(2) by simp
  moreover have "\<forall>c < length out. res ! c =
      (if c \<in> set (b # bs) then map (one_hot vocab_size) row0 else out ! c)"
    using res(3) row_b nb by (auto simp: nth_list_update)
  ultimately show ?case by blast
qed

text \<open>
  C9. For a token batch of shape \<open>(batch_size, seq_length)\<close> whose tokens are below
  \<open>vocab_size\<close>, \<open>one_hot_encoder\<close> returns the same matrix at every batch index: the
  one-hot encoding of the first row \<open>v[0]\<close>.
\<close>

theorem one_hot_encoder_first_row:
  assumes "\<forall>row \<in> set v. length row = seq_length"
    and "\<forall>row \<in> set v. \<forall>token \<in> set row. token < vocab_size"
  shows "one_hot_encoder v vocab_size =
           Inr (replicate (length v) (map (one_hot vocab_size) (hd v)))"
proof (cases v)
  case Nil
  then show ?thesis by (simp add: one_hot_encoder_def zeros3_def)
next
  case (Cons row0 rows)
  let ?out = "zeros3 (length v) (size1 v) vocab_size"
  have toks: "\<forall>t \<in> set row0. t < vocab_size" using assms(2) Cons by simp
  have "\<exists>res. encode_batches [0..<length v] (row0 # rows) ?out = Inr res
          \<and> length res = length ?out
          \<and> (\<forall>b < length ?out. res ! b =
                 (if b \<in> set [0..<length v] then map (one_hot vocab_size) row0 else ?out ! b))"
  proof (rule encode_batches_rows [OF _ _ _ toks])
    have sz: "size1 v = length row0" using Cons by (simp add: size1_def)
    show "distinct [0..<length v]" by simp
    show "\<forall>b \<in> set [0..<length v]. b < length ?out" by (simp add: zeros3_def)
    show "\<forall>b \<in> set [0..<length v]. ?out ! b = replicate (length row0) (replicate vocab_size 0)"
      by (simp add: zeros3_def sz)
  qed
  then obtain res where res: "encode_batches [0..<length v] (row0 # rows) ?out = Inr res"
      "length res = length v"
      "\<forall>b < length v. res ! b = map (one_hot vocab_size) row0"
    by (auto simp: zeros3_def)
  have "res = replicate (length v) (map (one_hot vocab_size) row0)"
    using res(2,3) by (intro nth_equalityI) simp_all
  with res(1) Cons show ?thesis by (simp add: one_hot_encoder_def)
qed

theorem one_hot_encoder_first_row_witness:
  "one_hot_encoder v_example 3 = Inr [[[0, 1, 0], [0, 0, 1]], [[0, 1, 0], [0, 0, 1]]]
   \<and> map (one_hot 3) (v_example ! 1) = [[1, 0, 0], [1, 0, 0]]"
proof -
  have shape: "\<forall>row \<in> set v_example. length row = 2"
    by (simp add: v_example_def)
  have toks: "\<forall>row \<in> set v_example. \<forall>token \<in> set row. token < 3"
    by (simp add: v_example_def)
  have oh: "one_hot 3 0 = [1, 0, 0]" "one_hot 3 1 = [0, 1, 0]" "one_hot 3 2 = [0, 0, 1]"
    by (simp_all add: one_hot_def numeral_3_eq_3 numeral_2_eq_2)
  have v: "length v_example = 2" "hd v_example = [1, 2]" "v_example ! 1 = [0, 0]"
    by (simp_all add: v_example_def)
  have "one_hot_encoder v_example 3
        = Inr (replicate (length v_example) (map (one_hot 3) (hd v_example)))"
    by (rule one_hot_encoder_first_row [OF shape toks])
  also have "replicate (length v_example) (map (one_hot 3) (hd v_example))
        = [[[0, 1, 0], [0, 0, 1]], [[0, 1, 0], [0, 0, 1]]]"
  proof -
    have two: "replicate 2 x = [x, x]" for x :: "real list list"
      by (simp add: numeral_2_eq_2)
    show ?thesis unfolding v two by (simp only: oh list.map)
  qed
  finally have first: "one_hot_encoder v_example 3
        = Inr [[[0, 1, 0], [0, 0, 1]], [[0, 1, 0], [0, 0, 1]]]" .
  have "map (one_hot 3) (v_example ! 1) = [[1, 0, 0], [1, 0, 0]]"
    unfolding v by (simp only: oh list.map)
  with first show ?thesis by (rule conjI)
qed

subsection \<open>Attention scores\<close>

lemma sum_list_exp_nonneg: "0 \<le> sum_list (map exp (xs :: real list))"
  by (induction xs) simp_all

lemma sum_list_exp_positive: "xs \<noteq> [] \<Longrightarrow> 0 < sum_list (map exp (xs :: real list))"
  by (cases xs) (simp_all add: add_pos_nonneg sum_list_exp_nonneg)

lemma softmax_positive: "x \<in> set (softmax xs) \<Longrightarrow> 0 < x"
proof -
  assume "x \<in> set (softmax xs)"
  then obtain y where y: "y \<in> set xs" "x = exp y / sum_list (map exp xs)"
    by (auto simp: softmax_def)
  have "0 < sum_list (map exp xs)"
    using y(1) by (intro sum_list_exp_positive) auto
  with y(2) show "0 < x" by simp
qed

lemma attention_scores_ignore_mask:
  "attention_scores scale (Some m) k q = attention_scores scale None k q"
  by (simp add: attention_scores_def)

lemma attention_scores_positive:
  assumes "h \<in> set (attention_scores scale msk k q)" "s \<in> set h" "row \<in> set s" "w \<in> set row"
  shows "0 < w"
proof -
  from assms(1-3) obtain xs where "row = softmax xs"
    by (auto simp: attention_scores_def Let_def split: option.splits)
  with assms(4) show ?thesis by (simp add: softmax_positive)
qed

text \<open>
  C1. With the causal mask of \<open>generate_mask\<close> passed in, the decoder's self-attention
  still gives weight to a later position: for a target of two positions whose queries and
  keys are zero, position 0 puts weight \<open>1/2\<close> on position 1, where a causal mask gives 0.
  By \<open>attention_scores_ignore_mask\<close> and \<open>attention_scores_positive\<close> this is so for
  every input: the mask never changes the scores, and every weight is positive.
\<close>

theorem decoder_attends_to_later_position:
  "generate_mask 2 = [[Zero, NegInf], [Zero, Zero]]
   \<and> attention_scores 1 (Some (generate_mask 2)) zero_qk zero_qk
       = [[[[1 / 2, 1 / 2], [1 / 2, 1 / 2]]]]"
  by (simp add: attention_scores_def einsum_kabc_qdef_qabe_def zero_qk_def softmax_def
        generate_mask_def numeral_2_eq_2)

subsection \<open>Loss series and plot\<close>

lemma convert_losses_tensors:
  "convert_losses (map Tensor xs) = Inr (map NdArray xs)"
  by (induction xs) simp_all

lemma convert_losses_arrays:
  "xs \<noteq> [] \<Longrightarrow> convert_losses (map NdArray xs) = Inl AttributeError"
  by (cases xs) simp_all

lemma plot_recorded_losses_raises:
  "xs \<noteq> [] \<Longrightarrow> plot_recorded_losses (map Tensor xs) ys = Inl AttributeError"
  by (simp add: plot_recorded_losses_def convert_losses_tensors convert_losses_arrays)

text \<open>
  C7. After one epoch with training loss 1 and test loss 2, the script does not plot the
  recorded test-loss series: line 755 reads the training series, whose entries are numpy
  arrays by then, and the conversion raises \<open>AttributeError\<close> before \<open>plot_losses\<close> is
  called. By \<open>plot_recorded_losses_raises\<close> the same holds after every run that has
  recorded an epoch.
\<close>

theorem test_loss_series_not_plotted:
  "plot_recorded_losses [Tensor 1] [Tensor 2] = Inl AttributeError"
  by (simp add: plot_recorded_losses_def)

subsection \<open>Sampling and dropping rows\<close>

lemma py_round_nonneg: "0 \<le> x \<Longrightarrow> 0 \<le> py_round x"
  by (auto simp: py_round_def Let_def)

lemma py_round_le_ceiling: "py_round x \<le> \<lceil>x\<rceil>"
proof -
  have "\<lfloor>x\<rfloor> + 1 \<le> \<lceil>x\<rceil>" if "1 / 2 \<le> x - of_int \<lfloor>x\<rfloor>"
  proof -
    from that have "of_int \<lfloor>x\<rfloor> < x" by linarith
    then show ?thesis by linarith
  qed
  moreover have "\<lfloor>x\<rfloor> \<le> \<lceil>x\<rceil>" by linarith
  ultimately show ?thesis
    by (auto simp: py_round_def Let_def)
qed

lemma sample_size_le:
  assumes "0 \<le> fr" "fr \<le> 1"
  shows "sample_size fr n \<le> n"
proof -
  have "fr * of_nat n \<le> 1 * of_nat n"
    using assms(2) by (intro mult_right_mono) simp_all
  then have "\<lceil>fr * of_nat n\<rceil> \<le> int n"
    by (simp add: ceiling_le_iff)
  with py_round_le_ceiling [of "fr * of_nat n"] show ?thesis
    by (simp add: sample_size_def)
qed

lemma distinct_map_nth:
  "distinct xs \<Longrightarrow> distinct locs \<Longrightarrow> list_all (\<lambda>p. p < length xs) locs
     \<Longrightarrow> distinct (map (\<lambda>p. xs ! p) locs)"
  by (auto simp: distinct_map inj_on_def list_all_iff nth_eq_iff_index_eq)

lemma sample_rows:
  assumes "valid_choice choice" "0 \<le> fr" "fr \<le> 1" "distinct (index df)"
  shows "\<exists>sub. sample choice fr df = Inr sub \<and> length sub = sample_size fr (length df)
           \<and> distinct (index sub) \<and> set sub \<subseteq> set df"
proof -
  let ?k = "sample_size fr (length df)"
  let ?locs = "choice (length df) ?k"
  let ?sub = "map (\<lambda>p. df ! p) ?locs"
  have k: "?k \<le> length df" by (rule sample_size_le [OF assms(2,3)])
  with assms(1) have locs: "length ?locs = ?k" "distinct ?locs"
      "list_all (\<lambda>p. p < length df) ?locs"
    by (simp_all add: valid_choice_def)
  have "sample choice fr df = Inr ?sub"
    using locs(3) by (simp add: sample_def)
  moreover have "length ?sub = ?k" using locs(1) by simp
  moreover have "distinct (index ?sub)"
  proof -
    have "index ?sub = map (\<lambda>p. index df ! p) ?locs"
      using locs(3) by (simp add: index_def list_all_iff)
    moreover have "distinct (map (\<lambda>p. index df ! p) ?locs)"
      using assms(4) locs(2,3) by (intro distinct_map_nth) (simp_all add: index_def)
    ultimately show ?thesis by simp
  qed
  moreover have "set ?sub \<subseteq> set df"
    using locs(3) by (auto simp: list_all_iff)
  ultimately show ?thesis by blast
qed

lemma distinct_index_rows: "distinct (index df) \<Longrightarrow> distinct df"
  by (simp add: index_def distinct_map)

lemma drop_rows_sub:
  assumes "distinct (index df)" "distinct (index sub)" "set sub \<subseteq> set df"
  shows "\<exists>rest. drop_rows (index sub) df = Inr rest \<and> mset rest + mset sub = mset df
           \<and> distinct (index rest) \<and> set rest \<subseteq> set df"
proof -
  let ?rest = "filter (\<lambda>r. idx r \<notin> set (index sub)) df"
  have inj: "inj_on idx (set df)" and d: "distinct df"
    using assms(1) by (simp_all add: index_def distinct_map)
  have mem: "idx r \<in> set (index sub) \<longleftrightarrow> r \<in> set sub" if "r \<in> set df" for r
    using that assms(3) inj by (auto simp: index_def inj_on_def)
  have rest: "?rest = filter (\<lambda>r. r \<notin> set sub) df"
    by (rule filter_cong) (simp_all add: mem)
  have "drop_rows (index sub) df = Inr ?rest"
    using assms(3) by (auto simp: drop_rows_def index_def)
  moreover have "mset ?rest + mset sub = mset df"
  proof -
    have "distinct (filter (\<lambda>r. r \<in> set sub) df)" using d by simp
    moreover have "distinct sub" using assms(2) by (rule distinct_index_rows)
    moreover have "set (filter (\<lambda>r. r \<in> set sub) df) = set sub" using assms(3) by auto
    ultimately have sub: "mset (filter (\<lambda>r. r \<in> set sub) df) = mset sub"
      using set_eq_iff_mset_eq_distinct by blast
    have "mset (filter (\<lambda>r. r \<notin> set sub) df) + mset (filter (\<lambda>r. r \<in> set sub) df)
          = mset df"
      by simp
    then show ?thesis unfolding rest sub .
  qed
  moreover have "distinct (index ?rest)"
    using assms(1) by (simp add: index_def distinct_map_filter)
  moreover have "set ?rest \<subseteq> set df" by auto
  ultimately show ?thesis by blast
qed

lemma split_steps:
  assumes "valid_choice choice" "distinct (index df)" "0 \<le> fr" "fr \<le> 1"
  shows "\<exists>test valid train test'.
           sample choice (1 / 5) df = Inr test \<and> sample choice fr test = Inr valid
           \<and> drop_rows (index test) df = Inr train \<and> drop_rows (index valid) test = Inr test'
           \<and> mset train + mset test' + mset valid = mset df
           \<and> length valid = sample_size fr (sample_size (1 / 5) (length df))
           \<and> length test' + length valid = sample_size (1 / 5) (length df)
           \<and> length train + sample_size (1 / 5) (length df) = length df"
proof -
  from sample_rows [OF assms(1) _ _ assms(2), of "1 / 5"] obtain test where
    test: "sample choice (1 / 5) df = Inr test" "length test = sample_size (1 / 5) (length df)"
      "distinct (index test)" "set test \<subseteq> set df"
    by auto
  from sample_rows [OF assms(1,3,4) test(3)] obtain valid where
    valid: "sample choice fr test = Inr valid" "length valid = sample_size fr (length test)"
      "distinct (index valid)" "set valid \<subseteq> set test"
    by auto
  from drop_rows_sub [OF assms(2) test(3,4)] obtain train where
    train: "drop_rows (index test) df = Inr train" "mset train + mset test = mset df"
    by auto
  from drop_rows_sub [OF test(3) valid(3,4)] obtain test' where
    test': "drop_rows (index valid) test = Inr test'" "mset test' + mset valid = mset test"
    by auto
  have "mset train + mset test' + mset valid = mset df"
    using train(2) test'(2) by (simp add: add.assoc)
  moreover have "length test' + length valid = length test"
    using test'(2) by (metis size_mset size_union)
  moreover have "length train + length test = length df"
    using train(2) by (metis size_mset size_union)
  ultimately show ?thesis
    using test(1,2) valid(1,2) train(1) test'(1) by auto
qed

lemma split_label_parts:
  assumes "valid_choice choice" "distinct (index df)"
  shows "\<exists>train test valid.
           split_label choice df = Inr (train, test, valid)
           \<and> mset train + mset test + mset valid = mset df
           \<and> length valid = sample_size (if 20 \<le> length df then 1 / 4 else 1 / 2)
                                (sample_size (1 / 5) (length df))
           \<and> length test + length valid = sample_size (1 / 5) (length df)
           \<and> length train + sample_size (1 / 5) (length df) = length df"
proof (cases "20 \<le> length df")
  case True
  from split_steps [OF assms, of "1 / 4"] True show ?thesis
    by (auto simp: split_label_def)
next
  case False
  from split_steps [OF assms, of "1 / 2"] False show ?thesis
    by (auto simp: split_label_def)
qed

lemma valid_first_choice: "valid_choice first_choice"
  by (simp add: valid_choice_def first_choice_def list_all_iff)

lemma index_class_frame: "index (class_frame n) = [0..<n]"
  by (simp add: index_def class_frame_def mk_row_def comp_def)

lemma length_class_frame: "length (class_frame n) = n"
  by (simp add: class_frame_def)

text \<open>
  C4 (amended). For a class of \<open>n\<close> rows the sample holds \<open>t = round(n / 5)\<close> rows, of which
  \<open>v = round(t / 4)\<close> (for \<open>n \<ge> 20\<close>) or \<open>v = round(t / 2)\<close> (for \<open>n < 20\<close>) go to valid;
  test keeps \<open>t - v\<close> rows and train holds the other \<open>n - t\<close> rows, where \<open>round\<close> is
  Python's rounding to the nearest integer with ties to even.
\<close>

theorem split_sizes_rounded:
  assumes "valid_choice choice" "distinct (index df)"
  shows "split_sizes choice df =
           (let t = sample_size (1 / 5) (length df);
                v = sample_size (if 20 \<le> length df then 1 / 4 else 1 / 2) t
            in Inr (length df - t, t - v, v))"
proof -
  from split_label_parts [OF assms] obtain train test valid where
    parts: "split_label choice df = Inr (train, test, valid)"
      "length valid = sample_size (if 20 \<le> length df then 1 / 4 else 1 / 2)
                        (sample_size (1 / 5) (length df))"
      "length test + length valid = sample_size (1 / 5) (length df)"
      "length train + sample_size (1 / 5) (length df) = length df"
    by blast
  have "length test = sample_size (1 / 5) (length df) - length valid"
    using parts(3) by simp
  moreover have "length train = length df - sample_size (1 / 5) (length df)"
    using parts(4) by simp
  ultimately show ?thesis
    using parts(1,2) by (simp add: split_sizes_def Let_def)
qed

lemma sample_size_values:
  "sample_size (1 / 5) 20 = 4" "sample_size (1 / 4) 4 = 1"
  "sample_size (1 / 5) 21 = 4" "sample_size (1 / 5) 13 = 3" "sample_size (1 / 2) 3 = 2"
  by code_simp+

theorem split_sizes_rounded_witness:
  "valid_choice first_choice \<and> distinct (index (class_frame 20))
   \<and> split_sizes first_choice (class_frame 20) = Inr (16, 3, 1)"
proof -
  have d: "distinct (index (class_frame 20))"
    by (simp add: index_class_frame)
  from split_sizes_rounded [OF valid_first_choice d]
  have "split_sizes first_choice (class_frame 20) = Inr (16, 3, 1)"
    by (simp add: length_class_frame sample_size_values Let_def)
  with valid_first_choice d show ?thesis by simp
qed

text \<open>
  A class of 21 rows is split into 17, 3 and 1 rows: test does not hold 15 per cent and
  valid does not hold 5 per cent of the class. A class of 13 rows is split into 10, 1 and
  2 rows: test and valid do not hold half of the sample each.
\<close>

theorem split_fractions_counterexample:
  "split_sizes first_choice (class_frame 21) = Inr (17, 3, 1)
   \<and> (100 :: nat) * 3 \<noteq> 15 * 21 \<and> (100 :: nat) * 1 \<noteq> 5 * 21
   \<and> split_sizes first_choice (class_frame 13) = Inr (10, 1, 2)
   \<and> (1 :: nat) \<noteq> 2"
  by code_simp

subsection \<open>The loop over the labels\<close>

lemma append_rows_eq:
  "append_rows rows (xs, ys) = (xs @ map uniprot rows, ys @ map EC rows)"
  by (induction rows arbitrary: xs ys) simp_all

lemma zip_map_rows:
  "zip (map uniprot rows) (map EC rows) = map (\<lambda>r. (uniprot r, EC r)) rows"
  by (induction rows) simp_all

lemma indicator_sum_distinct:
  "distinct ls \<Longrightarrow>
   (\<Sum>l \<leftarrow> ls. (if k = l then {#x#} else {#})) = (if k \<in> set ls then {#x#} else {#})"
  by (induction ls) auto

lemma classes_cover:
  assumes "distinct labels" "EC ` set data \<subseteq> set labels"
  shows "(\<Sum>label \<leftarrow> labels. mset (map f (filter (\<lambda>r. EC r = label) data))) = mset (map f data)"
  using assms(2)
proof (induction data)
  case Nil
  then show ?case by (induction labels) simp_all
next
  case (Cons r rs)
  have "(\<Sum>label \<leftarrow> labels. mset (map f (filter (\<lambda>r. EC r = label) (r # rs))))
        = (\<Sum>label \<leftarrow> labels. (if EC r = label then {#f r#} else {#})
                                 + mset (map f (filter (\<lambda>r. EC r = label) rs)))"
    by (intro arg_cong [where f = sum_list] map_cong) simp_all
  also have "\<dots> = (\<Sum>label \<leftarrow> labels. (if EC r = label then {#f r#} else {#}))
                   + (\<Sum>label \<leftarrow> labels. mset (map f (filter (\<lambda>r. EC r = label) rs)))"
    by (rule sum_list_addf)
  also have "\<dots> = {#f r#} + mset (map f rs)"
    using Cons indicator_sum_distinct [OF assms(1), of "EC r" "f r"] by simp
  finally show ?case by simp
qed

lemma unique_labels: "distinct (unique xs)" "set (unique xs) = set xs"
  by (simp_all add: unique_def)

lemma split_loop_frames:
  assumes "valid_choice choice" "distinct (index data)"
    and "length (train_x acc) = length (train_y acc)"
    and "length (test_x acc) = length (test_y acc)"
    and "length (val_x acc) = length (val_y acc)"
  shows "\<exists>out. split_loop choice labels data acc = Inr out
           \<and> mset (train_frame out) + mset (test_frame out) + mset (valid_frame out)
               = mset (train_frame acc) + mset (test_frame acc) + mset (valid_frame acc)
                 + (\<Sum>label \<leftarrow> labels.
                      mset (map (\<lambda>r. (uniprot r, EC r)) (filter (\<lambda>r. EC r = label) data)))"
  using assms(3-5)
proof (induction labels arbitrary: acc)
  case Nil
  then show ?case by simp
next
  case (Cons label labels)
  let ?df = "filter (\<lambda>r. EC r = label) data"
  let ?p = "\<lambda>r. (uniprot r, EC r)"
  have "distinct (index ?df)"
    using assms(2) by (simp add: index_def distinct_map_filter)
  from split_label_parts [OF assms(1) this] obtain train test valid where
    parts: "split_label choice ?df = Inr (train, test, valid)"
      "mset train + mset test + mset valid = mset ?df"
    by blast
  let ?acc' = "\<lparr>train_x = train_x acc @ map uniprot train, train_y = train_y acc @ map EC train,
                 test_x = test_x acc @ map uniprot test, test_y = test_y acc @ map EC test,
                 val_x = val_x acc @ map uniprot valid, val_y = val_y acc @ map EC valid\<rparr>"
  have step: "split_loop choice (label # labels) data acc = split_loop choice labels data ?acc'"
    using parts(1) by (simp add: append_rows_eq)
  have frames: "train_frame ?acc' = train_frame acc @ map ?p train"
      "test_frame ?acc' = test_frame acc @ map ?p test"
      "valid_frame ?acc' = valid_frame acc @ map ?p valid"
    using Cons.prems
    by (simp_all add: train_frame_def test_frame_def valid_frame_def zip_map_rows)
  have "mset (map ?p train) + mset (map ?p test) + mset (map ?p valid) = mset (map ?p ?df)"
    using arg_cong [OF parts(2), of "image_mset ?p"] by simp
  then have new: "mset (train_frame ?acc') + mset (test_frame ?acc') + mset (valid_frame ?acc')
      = mset (train_frame acc) + mset (test_frame acc) + mset (valid_frame acc)
        + mset (map ?p ?df)"
    unfolding frames by (simp add: ac_simps)
  have "length (train_x ?acc') = length (train_y ?acc')"
      "length (test_x ?acc') = length (test_y ?acc')"
      "length (val_x ?acc') = length (val_y ?acc')"
    using Cons.prems by simp_all
  from Cons.IH [OF this] obtain out where
    out: "split_loop choice labels data ?acc' = Inr out"
      "mset (train_frame out) + mset (test_frame out) + mset (valid_frame out)
         = mset (train_frame ?acc') + mset (test_frame ?acc') + mset (valid_frame ?acc')
           + (\<Sum>label \<leftarrow> labels. mset (map ?p (filter (\<lambda>r. EC r = label) data)))"
    by blast
  have "split_loop choice (label # labels) data acc = Inr out"
    using step out(1) by simp
  moreover have "mset (train_frame out) + mset (test_frame out) + mset (valid_frame out)
      = mset (train_frame acc) + mset (test_frame acc) + mset (valid_frame acc)
        + (\<Sum>label \<leftarrow> label # labels. mset (map ?p (filter (\<lambda>r. EC r = label) data)))"
    unfolding out(2) new by (simp add: ac_simps)
  ultimately show ?case by blast
qed

lemma split_data_frames:
  assumes "valid_choice choice" "distinct (index data)"
  shows "\<exists>out. split_data choice data = Inr out
           \<and> mset (train_frame out) + mset (test_frame out) + mset (valid_frame out)
               = mset (map (\<lambda>r. (uniprot r, EC r)) data)"
proof -
  let ?acc = "\<lparr>train_x = [], train_y = [], test_x = [], test_y = [], val_x = [], val_y = []\<rparr>"
  from split_loop_frames [OF assms, of ?acc "unique (map EC data)"] obtain out where
    out: "split_loop choice (unique (map EC data)) data ?acc = Inr out"
      "mset (train_frame out) + mset (test_frame out) + mset (valid_frame out)
         = (\<Sum>label \<leftarrow> unique (map EC data).
              mset (map (\<lambda>r. (uniprot r, EC r)) (filter (\<lambda>r. EC r = label) data)))"
    by (auto simp: train_frame_def test_frame_def valid_frame_def)
  have "(\<Sum>label \<leftarrow> unique (map EC data).
           mset (map (\<lambda>r. (uniprot r, EC r)) (filter (\<lambda>r. EC r = label) data)))
        = mset (map (\<lambda>r. (uniprot r, EC r)) data)"
    by (rule classes_cover) (simp_all add: unique_labels)
  with out show ?thesis by (simp add: split_data_def)
qed

subsection \<open>The frame that is split\<close>

lemma index_read_csv: "index (read_csv lines) = [0..<length lines]"
proof -
  have "map idx (read_csv lines) = map fst (enumerate 0 lines)"
    by (simp add: read_csv_def split_def comp_def)
  then show ?thesis by (simp add: index_def map_fst_enumerate)
qed

lemma remove_rows_kept:
  assumes "distinct (index (kept @ rows))"
  shows "remove_rows point_clouds rows (kept @ rows, pcs)
         = Inr (kept @ filter (\<lambda>r. uniprot r @ ''.txt'' \<in> set point_clouds) rows,
                pcs @ map (\<lambda>r. uniprot r @ ''.txt'')
                        (filter (\<lambda>r. uniprot r @ ''.txt'' \<in> set point_clouds) rows))"
  using assms
proof (induction rows arbitrary: kept pcs)
  case Nil
  then show ?case by simp
next
  case (Cons row rows)
  show ?case
  proof (cases "uniprot row @ ''.txt'' \<in> set point_clouds")
    case True
    have "distinct (index ((kept @ [row]) @ rows))" using Cons.prems by simp
    from Cons.IH [OF this, of "pcs @ [uniprot row @ ''.txt'']"] True show ?thesis
      by simp
  next
    case False
    have d: "\<forall>r \<in> set kept. idx r \<noteq> idx row" "\<forall>r \<in> set rows. idx r \<noteq> idx row"
      using Cons.prems by (auto simp: index_def image_iff)
    have "filter (\<lambda>r. idx r \<noteq> idx row) (kept @ row # rows) = kept @ rows"
    proof -
      have "filter (\<lambda>r. idx r \<noteq> idx row) kept = kept"
        using d(1) by (intro filter_True)
      moreover have "filter (\<lambda>r. idx r \<noteq> idx row) rows = rows"
        using d(2) by (intro filter_True)
      ultimately show ?thesis by simp
    qed
    then have dropped: "drop_rows [idx row] (kept @ row # rows) = Inr (kept @ rows)"
      by (simp add: drop_rows_def)
    have "distinct (index (kept @ rows))" using Cons.prems by (simp add: index_def)
    from Cons.IH [OF this, of pcs] False dropped show ?thesis
      by simp
  qed
qed

lemma balanced_data_set_index:
  "\<exists>data. balanced_data_set point_clouds lines = Inr data \<and> distinct (index data)"
proof -
  let ?ec = "read_csv lines"
  let ?has = "\<lambda>r. uniprot r @ ''.txt'' \<in> set point_clouds"
  let ?name = "\<lambda>r. uniprot r @ ''.txt''"
  let ?add = "\<lambda>(r, p). \<lparr>idx = idx r, uniprot = uniprot r, EC = EC r, protein = p\<rparr>"
  have d: "distinct (index ?ec)" by (simp add: index_read_csv)
  then have "distinct (index ([] @ ?ec))" by simp
  from remove_rows_kept [OF this, of point_clouds "[]"]
  have rm: "remove_rows point_clouds ?ec (?ec, []) = Inr (filter ?has ?ec, map ?name (filter ?has ?ec))"
    by simp
  let ?rows = "map ?add (zip (filter ?has ?ec) (map ?name (filter ?has ?ec)))"
  have sp: "set_protein (filter ?has ?ec) (map ?name (filter ?has ?ec)) = Inr ?rows"
    by (simp add: set_protein_def)
  have "index ?rows = index (filter ?has ?ec)"
    by (simp add: index_def zip_map2 comp_def split_def zip_same_conv_map)
  moreover have "distinct (index (filter ?has ?ec))"
    using d by (simp add: index_def distinct_map_filter)
  ultimately have "distinct (index (filter_low_counts ?rows))"
    by (simp add: filter_low_counts_filter index_def distinct_map_filter)
  moreover have "balanced_data_set point_clouds lines = Inr (filter_low_counts ?rows)"
    using rm sp by (simp add: balanced_data_set_def Let_def)
  ultimately show ?thesis by blast
qed

lemma disjoint_parts:
  assumes "distinct df" "mset train + mset test + mset valid = mset df"
  shows "set train \<inter> set test = {} \<and> set train \<inter> set valid = {} \<and> set test \<inter> set valid = {}"
proof -
  have "mset (train @ test @ valid) = mset df"
    using assms(2) by (simp add: add.assoc)
  then have "distinct (train @ test @ valid)"
    using assms(1) mset_eq_imp_distinct_iff by blast
  then show ?thesis by auto
qed

text \<open>
  C3. The split loses and duplicates no row: the rows written to \<open>09_train.csv\<close>,
  \<open>09_test.csv\<close> and \<open>09_valid.csv\<close> are together, as a multiset, the rows of the balanced
  data set; and for every label the three parts of its class are pairwise disjoint and
  make up the class.
\<close>

theorem split_places_each_row_once:
  assumes "valid_choice choice" "balanced_data_set point_clouds lines = Inr data"
  shows "(\<exists>out. split_data choice data = Inr out
            \<and> mset (train_frame out) + mset (test_frame out) + mset (valid_frame out)
                = mset (map (\<lambda>r. (uniprot r, EC r)) data))
         \<and> (\<forall>label. \<exists>train test valid.
               split_label choice (class_rows data label) = Inr (train, test, valid)
               \<and> mset train + mset test + mset valid = mset (class_rows data label)
               \<and> set train \<inter> set test = {} \<and> set train \<inter> set valid = {}
               \<and> set test \<inter> set valid = {})"
proof -
  from balanced_data_set_index [of point_clouds lines] assms(2)
  have d: "distinct (index data)" by auto
  have "\<exists>train test valid.
          split_label choice (class_rows data label) = Inr (train, test, valid)
          \<and> mset train + mset test + mset valid = mset (class_rows data label)
          \<and> set train \<inter> set test = {} \<and> set train \<inter> set valid = {}
          \<and> set test \<inter> set valid = {}" for label
  proof -
    have dl: "distinct (index (class_rows data label))"
      using d by (simp add: class_rows_def index_def distinct_map_filter)
    from split_label_parts [OF assms(1) dl] obtain train test valid where
      parts: "split_label choice (class_rows data label) = Inr (train, test, valid)"
        "mset train + mset test + mset valid = mset (class_rows data label)"
      by blast
    from disjoint_parts [OF distinct_index_rows [OF dl] parts(2)] parts show ?thesis
      by blast
  qed
  with split_data_frames [OF assms(1) d] show ?thesis by blast
qed

lemma example_balanced:
  "balanced_data_set example_point_clouds example_lines = Inr example_data"
  by code_simp

theorem split_places_each_row_once_witness:
  "valid_choice first_choice
   \<and> balanced_data_set example_point_clouds example_lines = Inr example_data
   \<and> (\<exists>out. split_data first_choice example_data = Inr out
          \<and> mset (train_frame out) + mset (test_frame out) + mset (valid_frame out)
              = mset (map (\<lambda>r. (uniprot r, EC r)) example_data))
   \<and> (\<exists>train test valid.
          split_label first_choice (class_rows example_data ''1.1.1.1'') = Inr (train, test, valid)
          \<and> set train \<inter> set test = {} \<and> set train \<inter> set valid = {}
          \<and> set test \<inter> set valid = {})"
  using split_places_each_row_once [OF valid_first_choice example_balanced]
    valid_first_choice example_balanced
  by blast

subsection \<open>\<open>smi_tokenizer\<close>\<close>

lemma match_rest_token:
  assumes "match_rest c cs = Some n"
  shows "n \<le> length cs \<and> is_token (c # take n cs)"
proof (cases "c = CHR ''[''")
  case True
  let ?body = "takeWhile (\<lambda>x. x \<noteq> CHR '']'') cs"
  from assms True have body: "?body \<noteq> []" "length ?body < length cs" "n = Suc (length ?body)"
    by (auto simp: match_rest_def Let_def split: if_splits)
  have "cs ! length ?body = CHR '']''"
    using nth_length_takeWhile [OF body(2)] by simp
  then have "take n cs = ?body @ '']''"
    using body(2,3) by (simp add: take_Suc_conv_app_nth takeWhile_eq_take [symmetric])
  moreover have "CHR '']'' \<notin> set ?body"
    by (auto dest: set_takeWhileD)
  ultimately show ?thesis
    using True body by (simp add: is_token_def)
next
  case False
  with assms show ?thesis
    by (auto simp: match_rest_def is_token_def split: if_splits list.splits)
qed

lemma findall_tokens: "list_all is_token (findall s)"
proof (induction s rule: findall.induct)
  case 1
  then show ?case by simp
next
  case (2 c cs)
  then show ?case
    by (cases "match_rest c cs") (simp_all add: match_rest_token)
qed

lemma token_start:
  assumes "is_token t"
  shows "t \<noteq> [] \<and> hd t \<noteq> CHR ''r'' \<and> hd t \<noteq> CHR ''l''"
proof -
  have "CHR ''r'' \<notin> set single_tokens" "CHR ''l'' \<notin> set single_tokens"
       "CHR ''r'' \<notin> set digits" "CHR ''l'' \<notin> set digits"
    by (simp_all add: single_tokens_def digits_def backslash_def)
  with assms show ?thesis
    by (cases t) (auto simp: is_token_def split: if_splits)
qed

lemma starts_ok_concat: "list_all is_token ts \<Longrightarrow> starts_ok (concat ts)"
proof (cases ts)
  case Nil
  then show ?thesis by (simp add: starts_ok_def)
next
  case (Cons t ts')
  assume "list_all is_token ts"
  with Cons have "is_token t" by simp
  from token_start [OF this] Cons show ?thesis
    by (cases t) (simp_all add: starts_ok_def)
qed

lemma match_rest_of_token:
  assumes "is_token (c # r)" "starts_ok rest"
  shows "match_rest c (r @ rest) = Some (length r)"
proof (cases "c = CHR ''[''")
  case True
  with assms(1) have r: "r \<noteq> []" "last r = CHR '']''" "butlast r \<noteq> []"
      "CHR '']'' \<notin> set (butlast r)"
    by (simp_all add: is_token_def)
  let ?body = "butlast r"
  have split: "r @ rest = ?body @ CHR '']'' # rest"
    using r(1,2) by (metis append_butlast_last_id append.assoc append_Cons append_Nil)
  have tw: "takeWhile (\<lambda>x. x \<noteq> CHR '']'') (?body @ CHR '']'' # rest) = ?body"
    using r(4) by (subst takeWhile_append2) auto
  have "takeWhile (\<lambda>x. x \<noteq> CHR '']'') (r @ rest) = ?body"
    unfolding split by (rule tw)
  moreover have "Suc (length ?body) = length r"
    using r(1) by simp
  moreover have "length ?body < length (r @ rest)"
    using r(1) by (cases r) simp_all
  ultimately show ?thesis
    using True r(3) by (simp only: match_rest_def Let_def if_True simp_thms)
next
  case False
  note not_bracket = this
  show ?thesis
  proof (cases "c = CHR ''B'' \<or> c = CHR ''C''")
    case True
    with assms show ?thesis
      by (cases rest) (auto simp: match_rest_def is_token_def starts_ok_def)
  next
    case False
    with not_bracket assms(1) show ?thesis
      by (auto simp: match_rest_def is_token_def split: if_splits list.splits)
  qed
qed

lemma findall_concat: "list_all is_token ts \<Longrightarrow> findall (concat ts) = ts"
proof (induction ts)
  case Nil
  then show ?case by simp
next
  case (Cons t ts)
  then have t: "is_token t" and ts: "list_all is_token ts" by simp_all
  from token_start [OF t] obtain c r where cr: "t = c # r" by (cases t) auto
  have "match_rest c (r @ concat ts) = Some (length r)"
    using t cr starts_ok_concat [OF ts] by (simp add: match_rest_of_token)
  then have "findall (concat (t # ts)) = t # findall (concat ts)"
    by (simp add: cr)
  with Cons.IH [OF ts] show ?case by simp
qed

lemma composed_iff: "composed_of_tokens smi \<longleftrightarrow> concat (findall smi) = smi"
proof
  assume "composed_of_tokens smi"
  then obtain ts where "list_all is_token ts" "concat ts = smi"
    by (auto simp: composed_of_tokens_def)
  then show "concat (findall smi) = smi"
    using findall_concat by fastforce
next
  assume "concat (findall smi) = smi"
  with findall_tokens [of smi] show "composed_of_tokens smi"
    unfolding composed_of_tokens_def by blast
qed

text \<open>
  C8. For an input that is a concatenation of strings matched by the token pattern,
  \<open>smi_tokenizer\<close> returns these tokens joined by single spaces (so the tokens, put
  together again, are the input, and the assertion holds); for every other input it
  raises \<open>AssertionError\<close>.
\<close>

theorem smi_tokenizer_tokens:
  "(\<forall>ts. list_all is_token ts \<and> concat ts = smi \<longrightarrow>
        findall smi = ts \<and> smi_tokenizer smi = Inr (join_space ts))
   \<and> (\<not> composed_of_tokens smi \<longrightarrow> smi_tokenizer smi = Inl AssertionError)"
proof (intro conjI allI impI)
  fix ts
  assume a: "list_all is_token ts \<and> concat ts = smi"
  then show f: "findall smi = ts"
    using findall_concat by blast
  from a f show "smi_tokenizer smi = Inr (join_space ts)"
    by (simp add: smi_tokenizer_def)
next
  assume "\<not> composed_of_tokens smi"
  then have "concat (findall smi) \<noteq> smi"
    by (simp add: composed_iff)
  then show "smi_tokenizer smi = Inl AssertionError"
    by (auto simp: smi_tokenizer_def Let_def)
qed

theorem smi_tokenizer_tokens_witness:
  "list_all is_token [''C'', ''C'', ''('', ''='', ''O'', '')'', ''Cl'']
   \<and> smi_tokenizer ''CC(=O)Cl'' = Inr ''C C ( = O ) Cl''
   \<and> \<not> composed_of_tokens ''Cr''
   \<and> smi_tokenizer ''Cr'' = Inl AssertionError"
proof -
  have toks: "list_all is_token [''C'', ''C'', ''('', ''='', ''O'', '')'', ''Cl'']"
    by (simp add: is_token_def single_tokens_def)
  have cat: "concat [''C'', ''C'', ''('', ''='', ''O'', '')'', ''Cl''] = ''CC(=O)Cl''"
    by simp
  from smi_tokenizer_tokens [of "''CC(=O)Cl''"] toks cat
  have first: "smi_tokenizer ''CC(=O)Cl'' = Inr (join_space [''C'', ''C'', ''('', ''='', ''O'', '')'', ''Cl''])"
    by blast
  have "findall ''Cr'' = [''C'']"
    by (simp add: match_rest_def single_tokens_def digits_def backslash_def)
  then have no: "\<not> composed_of_tokens ''Cr''"
    by (simp add: composed_iff)
  with smi_tokenizer_tokens [of "''Cr''"] have "smi_tokenizer ''Cr'' = Inl AssertionError"
    by blast
  with toks first no show ?thesis by simp
qed

subsection \<open>The training loop\<close>

lemma run_epoch_state:
  assumes "run_epoch env epoch s = Inr (stop, s1)"
  shows "saved_model s1 = saved_model s" "length (test_loss s1) = Suc (length (test_loss s))"
  using assms
  by (auto simp: run_epoch_def split: prod.splits sum.splits)



lemma training_loop_completed:
  assumes "training_loop env xs s = Completed s'"
  shows "length (test_loss s') = length (test_loss s) + length xs
         \<and> (xs \<noteq> [] \<longrightarrow> saved_model s' = Some (model s'))"
  using assms
proof (induction xs arbitrary: s)
  case Nil
  then show ?case by simp
next
  case (Cons x xs)
  show ?case
  proof (cases "run_epoch env x s")
    case (Inl err)
    with Cons.prems show ?thesis by simp
  next
    case (Inr r)
    obtain stop s1 where r: "r = (stop, s1)" by (cases r)
    have stop: "\<not> stop"
      using Cons.prems Inr r by (cases "restore x s1") (auto split: if_splits)
    with Cons.prems Inr r have rest: "training_loop env xs (save s1) = Completed s'"
      by simp
    from run_epoch_state [OF Inr [unfolded r]]
    have len: "length (test_loss (save s1)) = Suc (length (test_loss s))"
      by (simp add: save_def)
    show ?thesis
    proof (cases xs)
      case Nil
      with rest len show ?thesis by (auto simp: save_def)
    next
      case (Cons y ys)
      with Cons.IH [OF rest] len show ?thesis by simp
    qed
  qed
qed




lemma restored_checkpoint:
  assumes "training_loop env [0..<e] s = Completed s_e" "run_epoch env e s_e = Inr (True, s1)"
    and "restore e s1 = Inr s'"
  shows "saved_model s' = Some (model s')" "0 < e \<Longrightarrow> model s' = model s_e"
proof -
  from assms(3) have m: "saved_model s1 = Some (model s')" "saved_model s' = saved_model s1"
    by (auto simp: restore_def split: option.splits)
  then show "saved_model s' = Some (model s')" by simp
  assume "0 < e"
  with training_loop_completed [OF assms(1)] have "saved_model s_e = Some (model s_e)"
    by simp
  with run_epoch_state(1) [OF assms(2)] m(1) show "model s' = model s_e" by simp
qed













subsection \<open>\<open>Transformer.forward\<close>\<close>

lemma broadcast_same: "broadcast x x = Inr x"
  by (induction x) (simp_all add: broadcast_dim_def)

lemma Embedding_shape_valid:
  assumes "\<forall>row \<in> set x. \<forall>token \<in> set row. token < vocab_size"
  shows "Embedding_shape vocab_size [batch_size, seq_len] x = Inr [seq_len, batch_size, embed_dim]"
  using assms by (simp add: Embedding_shape_def list_all_iff)

lemma PositionalEncoding_shape_le:
  "seq_len \<le> max_len \<Longrightarrow>
   PositionalEncoding_shape [seq_len, b, embed_dim] = Inr [seq_len, b, embed_dim]"
  by (simp add: PositionalEncoding_shape_def broadcast_dim_def min_def)

lemma PositionalEncoding_shape_gt:
  "max_len < seq_len \<Longrightarrow> PositionalEncoding_shape [seq_len, b, embed_dim] = Inl RuntimeError"
  by (simp add: PositionalEncoding_shape_def broadcast_dim_def min_def max_len_def)

lemma SelfAttention_shape_ok:
  "SelfAttention_shape [s, b, embed_dim] = Inr ([s, b, embed_dim], [b, n_heads, s, head_dim])"
  by (simp add: SelfAttention_shape_def Linear_shape_def embed_dim_def n_heads_def head_dim_def)

lemma add_norm_shape_ok:
  "add_norm_shape [s, b, embed_dim] [s, b, embed_dim] = Inr [s, b, embed_dim]"
  by (simp add: add_norm_shape_def broadcast_same LayerNorm_shape_def del: broadcast.simps)

lemma MLP_shape_ok: "MLP_shape [s, b, embed_dim] = Inr [s, b, embed_dim]"
  by (simp add: MLP_shape_def Linear_shape_def)

lemma EncoderBlock_shape_ok:
  "EncoderBlock_shape [s, b, embed_dim] = Inr ([s, b, embed_dim], [b, n_heads, s, head_dim])"
  by (simp add: EncoderBlock_shape_def SelfAttention_shape_ok add_norm_shape_ok MLP_shape_ok)

lemma encoder_blocks_shape_ok:
  "encoder_blocks_shape n [s, b, embed_dim] kv =
     Inr ([s, b, embed_dim], if n = 0 then kv else [b, n_heads, s, head_dim])"
  by (induction n arbitrary: kv) (simp_all add: EncoderBlock_shape_ok)

lemma EncoderDecoderAttention_shape_ok:
  "EncoderDecoderAttention_shape [t, b, embed_dim]
     [b, n_heads, s, head_dim] [b, n_heads, s, head_dim] = Inr [t, b, embed_dim]"
proof -
  have "n_heads * head_dim = embed_dim"
    by (simp add: n_heads_def head_dim_def embed_dim_def)
  then show ?thesis
    by (simp add: EncoderDecoderAttention_shape_def broadcast_same Linear_shape_def
          del: broadcast.simps)
qed

lemma DecoderBlock_shape_ok:
  "DecoderBlock_shape [t, b, embed_dim] [b, n_heads, s, head_dim] [b, n_heads, s, head_dim]
     = Inr [t, b, embed_dim]"
  by (simp add: DecoderBlock_shape_def SelfAttention_shape_ok add_norm_shape_ok MLP_shape_ok
        EncoderDecoderAttention_shape_ok)

lemma decoder_blocks_shape_ok:
  "decoder_blocks_shape n [t, b, embed_dim] [b, n_heads, s, head_dim] = Inr [t, b, embed_dim]"
  by (induction n) (simp_all add: DecoderBlock_shape_ok)

lemma forward_shape_ok:
  assumes "\<forall>row \<in> set src. \<forall>token \<in> set row. token < vocab_size"
    and "\<forall>row \<in> set tgt. \<forall>token \<in> set row. token < vocab_size"
    and "src_seq_len \<le> max_len" "tgt_seq_len \<le> max_len"
  shows "forward_shape vocab_size [batch_size, src_seq_len] src [batch_size, tgt_seq_len] tgt
           = Inr [batch_size, tgt_seq_len, vocab_size]"
proof -
  have "encoder_depth \<noteq> 0" by (simp add: encoder_depth_def)
  then show ?thesis
    by (simp add: forward_shape_def
          Embedding_shape_valid [OF assms(1)] Embedding_shape_valid [OF assms(2)]
          PositionalEncoding_shape_le [OF assms(3)] PositionalEncoding_shape_le [OF assms(4)]
          encoder_blocks_shape_ok decoder_blocks_shape_ok Linear_shape_def)
qed

lemma length_softmax: "length (softmax xs) = length xs"
  by (simp add: softmax_def)

lemma sum_list_softmax: "xs \<noteq> [] \<Longrightarrow> sum_list (softmax xs) = 1"
proof -
  assume "xs \<noteq> []"
  then have pos: "0 < sum_list (map exp xs)" by (rule sum_list_exp_positive)
  have "sum_list (softmax xs) = (\<Sum>x \<leftarrow> xs. exp x * inverse (sum_list (map exp xs)))"
    by (simp add: softmax_def divide_inverse)
  also have "\<dots> = sum_list (map exp xs) * inverse (sum_list (map exp xs))"
    by (rule sum_list_mult_const)
  also have "\<dots> = 1" using pos by simp
  finally show ?thesis .
qed

lemma length_Linear: "length (Linear weight bias x) = min (length weight) (length bias)"
  by (simp add: Linear_def)

lemma output_layer_rows:
  assumes "\<forall>r \<in> set x. length r = batch_size" "row \<in> set (output_layer weight bias batch_size x)"
  shows "length row = length x"
    and "p \<in> set row \<Longrightarrow> \<exists>v. p = softmax (Linear weight bias v)"
proof -
  from assms(2) obtain b where b: "b < batch_size"
      "row = map (\<lambda>r. r ! b) (map (map softmax) (map (map (Linear weight bias)) x))"
    by (auto simp: output_layer_def permute_1_0_2_def)
  then show "length row = length x" by simp
  assume "p \<in> set row"
  with b(2) obtain r where r: "r \<in> set x" "p = map softmax (map (Linear weight bias) r) ! b"
    by auto
  with assms(1) b(1) have "p = softmax (Linear weight bias (r ! b))" by simp
  then show "\<exists>v. p = softmax (Linear weight bias v)" by blast
qed

text \<open>
  C6 (amended). For a source batch of shape \<open>(batch_size, src_seq_len)\<close> and a target batch
  of shape \<open>(batch_size, tgt_seq_len)\<close> of token indices below \<open>vocab_size\<close>, with both
  sequence lengths at most \<open>max_len = 5000\<close>, the forward pass raises nothing and returns a
  tensor of shape \<open>(batch_size, tgt_seq_len, vocab_size)\<close>; the last layer turns every
  output \<open>x\<close> of the decoder, of shape \<open>(tgt_seq_len, batch_size, embed_dim)\<close>, into vectors
  over the vocabulary whose entries are not negative and add up to 1.
\<close>

theorem forward_returns_distributions:
  assumes "length src = batch_size" "\<forall>row \<in> set src. length row = src_seq_len"
    and "length tgt = batch_size" "\<forall>row \<in> set tgt. length row = tgt_seq_len"
    and "\<forall>row \<in> set src. \<forall>token \<in> set row. token < vocab_size"
    and "\<forall>row \<in> set tgt. \<forall>token \<in> set row. token < vocab_size"
    and "src_seq_len \<le> max_len" "tgt_seq_len \<le> max_len"
    and "length x = tgt_seq_len" "\<forall>r \<in> set x. length r = batch_size"
    and "length weight = vocab_size" "length bias = vocab_size"
  shows "forward_shape vocab_size [batch_size, src_seq_len] src [batch_size, tgt_seq_len] tgt
           = Inr [batch_size, tgt_seq_len, vocab_size]
         \<and> length (output_layer weight bias batch_size x) = batch_size
         \<and> (\<forall>row \<in> set (output_layer weight bias batch_size x).
               length row = tgt_seq_len
               \<and> (\<forall>p \<in> set row.
                     length p = vocab_size \<and> (\<forall>w \<in> set p. 0 \<le> w) \<and> sum_list p = 1))"
proof (intro conjI ballI)
  show "forward_shape vocab_size [batch_size, src_seq_len] src [batch_size, tgt_seq_len] tgt
          = Inr [batch_size, tgt_seq_len, vocab_size]"
    by (rule forward_shape_ok [OF assms(5,6,7,8)])
next
  show "length (output_layer weight bias batch_size x) = batch_size"
    by (simp add: output_layer_def permute_1_0_2_def)
next
  fix row
  assume row: "row \<in> set (output_layer weight bias batch_size x)"
  from output_layer_rows(1) [OF assms(10) row] assms(9)
  show "length row = tgt_seq_len" by simp
  fix p
  assume p: "p \<in> set row"
  from output_layer_rows(2) [OF assms(10) row p] obtain v
    where v: "p = softmax (Linear weight bias v)" by blast
  show "length p = vocab_size"
    using assms(11,12) by (simp add: v length_softmax length_Linear)
  have "0 < tgt_seq_len"
    using p \<open>length row = tgt_seq_len\<close> by (cases row) auto
  moreover have "0 < batch_size"
    using row by (auto simp: output_layer_def permute_1_0_2_def)
  then obtain t_row where "t_row \<in> set tgt"
    using assms(3) by (cases tgt) auto
  ultimately obtain token where "token \<in> set t_row" "t_row \<in> set tgt"
    using assms(4) by (cases t_row) auto
  with assms(6) have "0 < vocab_size" by fastforce
  then have "Linear weight bias v \<noteq> []"
    using assms(11,12) length_Linear [of weight bias v] by auto
  then show "sum_list p = 1" by (simp add: v sum_list_softmax)
  fix w
  assume "w \<in> set p"
  then show "0 \<le> w" using softmax_positive [of w] v by (simp add: less_imp_le)
qed

theorem forward_returns_distributions_witness:
  "forward_shape 2 [1, 2] src_example [1, 3] tgt_example = Inr [1, 3, 2]
   \<and> length (output_layer [[1], [0]] [0, 0] 1 [[[0]], [[0]], [[0]]]) = 1
   \<and> output_layer [[1], [0]] [0, 0] 1 [[[0]], [[0]], [[0]]]
       = [[[1 / 2, 1 / 2], [1 / 2, 1 / 2], [1 / 2, 1 / 2]]]"
proof -
  have "forward_shape 2 [1, 2] src_example [1, 3] tgt_example = Inr [1, 3, 2]
        \<and> length (output_layer [[1], [0]] [0, 0] 1 [[[0]], [[0]], [[0]]]) = 1"
    using forward_returns_distributions
      [of src_example 1 2 tgt_example 3 2 "[[[0]], [[0]], [[0]]]" "[[1], [0]]" "[0, 0]"]
    by (simp add: src_example_def tgt_example_def max_len_def)
  moreover have "output_layer [[1], [0]] [0, 0] 1 [[[0]], [[0]], [[0]]]
       = [[[1 / 2, 1 / 2], [1 / 2, 1 / 2], [1 / 2, 1 / 2]]]"
    by (simp add: output_layer_def permute_1_0_2_def Linear_def softmax_def)
  ultimately show ?thesis by simp
qed

text \<open>
  A target of 5001 valid tokens: \<open>self.pe[:5001]\<close> has 5000 rows and cannot be added to
  the 5001 rows of the embedding, so the forward pass raises instead of returning a tensor.
\<close>

theorem forward_long_target_counterexample:
  "list_all (\<lambda>row. length row = 5001) long_tgt
   \<and> list_all (list_all (\<lambda>token. token < 1)) long_tgt
   \<and> forward_shape 1 [1, 1] [[0]] [1, 5001] long_tgt = Inl RuntimeError"
proof -
  have valid: "list_all (list_all (\<lambda>token. token < 1)) long_tgt"
    by (simp add: long_tgt_def list_all_iff)
  have e_src: "Embedding_shape 1 [1, 1] [[0]] = Inr [1, 1, embed_dim]"
    by (simp add: Embedding_shape_def)
  have e_tgt: "Embedding_shape 1 [1, 5001] long_tgt = Inr [5001, 1, embed_dim]"
    using valid by (simp add: Embedding_shape_def)
  have p_src: "PositionalEncoding_shape [1, 1, embed_dim] = Inr [1, 1, embed_dim]"
    by (rule PositionalEncoding_shape_le) (simp add: max_len_def)
  have p_tgt: "PositionalEncoding_shape [5001, 1, embed_dim] = Inl RuntimeError"
    by (rule PositionalEncoding_shape_gt) (simp add: max_len_def)
  have "forward_shape 1 [1, 1] [[0]] [1, 5001] long_tgt = Inl RuntimeError"
    unfolding forward_shape_def e_src e_tgt p_src p_tgt encoder_blocks_shape_ok
      sum.case prod.case
    by (rule refl)
  with valid show ?thesis by (simp add: long_tgt_def)
qed

subsection \<open>The balanced data set\<close>

lemma balanced_data_set_eq:
  "balanced_data_set point_clouds lines
     = Inr (filter_low_counts (rows_with_point_cloud point_clouds lines))"
proof -
  let ?ec = "read_csv lines"
  let ?has = "\<lambda>r. uniprot r @ ''.txt'' \<in> set point_clouds"
  let ?name = "\<lambda>r. uniprot r @ ''.txt''"
  let ?add = "\<lambda>(r, p). \<lparr>idx = idx r, uniprot = uniprot r, EC = EC r, protein = p\<rparr>"
  have "distinct (index ([] @ ?ec))" by (simp add: index_read_csv)
  from remove_rows_kept [OF this, of point_clouds "[]"]
  have rm: "remove_rows point_clouds ?ec (?ec, []) = Inr (filter ?has ?ec, map ?name (filter ?has ?ec))"
    by simp
  let ?rows = "map ?add (zip (filter ?has ?ec) (map ?name (filter ?has ?ec)))"
  have sp: "set_protein (filter ?has ?ec) (map ?name (filter ?has ?ec)) = Inr ?rows"
    by (simp add: set_protein_def)
  have "?rows = rows_with_point_cloud point_clouds lines"
    by (simp add: rows_with_point_cloud_def read_csv_def filter_map comp_def split_def
          zip_map_map zip_same_conv_map)
  moreover have "balanced_data_set point_clouds lines = Inr (filter_low_counts ?rows)"
    using rm sp by (simp add: balanced_data_set_def Let_def)
  ultimately show ?thesis by simp
qed

text \<open>
  C2 (amended). The script writes a balanced data set, whatever its input. Its rows are
  rows of the csv file that have a point cloud; every EC class in it has at least
  \<open>MIN_SAMPLES = 10\<close> rows and is there with all the rows of the class that have a point
  cloud; and every row with a point cloud whose class has at least 10 rows with a point
  cloud is in it.
\<close>

theorem balanced_data_set_min_samples:
  "MIN_SAMPLES = 10
   \<and> (\<exists>data. balanced_data_set point_clouds lines = Inr data
     \<and> set data \<subseteq> set (rows_with_point_cloud point_clouds lines)
     \<and> (\<forall>label \<in> EC ` set data.
           MIN_SAMPLES \<le> class_count data label
           \<and> class_rows data label
               = class_rows (rows_with_point_cloud point_clouds lines) label)
     \<and> (\<forall>r \<in> set (rows_with_point_cloud point_clouds lines).
           MIN_SAMPLES \<le> class_count (rows_with_point_cloud point_clouds lines) (EC r)
           \<longrightarrow> r \<in> set data))"
proof -
  have ten: "MIN_SAMPLES = 10" by (simp add: MIN_SAMPLES_def)
  let ?df = "rows_with_point_cloud point_clouds lines"
  let ?data = "filter_low_counts ?df"
  have "set ?data \<subseteq> set ?df"
    by (auto simp: filter_low_counts_filter)
  moreover have "MIN_SAMPLES \<le> class_count ?data label
      \<and> class_rows ?data label = class_rows ?df label" if "label \<in> EC ` set ?data" for label
  proof -
    from that filter_low_counts_min_samples [of ?df]
    have m: "MIN_SAMPLES \<le> class_count ?data label" by blast
    then have "MIN_SAMPLES \<le> class_count ?df label"
      by (simp add: class_count_filter_low_counts MIN_SAMPLES_def split: if_splits)
    with m show ?thesis by (simp add: class_rows_filter_low_counts)
  qed
  moreover have "\<forall>r \<in> set ?df. MIN_SAMPLES \<le> class_count ?df (EC r) \<longrightarrow> r \<in> set ?data"
    using filter_low_counts_min_samples [of ?df] by blast
  ultimately show ?thesis
    using balanced_data_set_eq [of point_clouds lines] ten by blast
qed

theorem balanced_data_set_min_samples_witness:
  "balanced_data_set example_point_clouds example_lines = Inr example_data
   \<and> MIN_SAMPLES \<le> class_count example_data ''1.1.1.1''
   \<and> class_rows example_data ''1.1.1.1''
       = class_rows (rows_with_point_cloud example_point_clouds example_lines) ''1.1.1.1''
   \<and> length example_data = 10"
proof -
  from balanced_data_set_min_samples [of example_point_clouds example_lines] example_balanced
  have classes: "\<forall>label \<in> EC ` set example_data.
      MIN_SAMPLES \<le> class_count example_data label
      \<and> class_rows example_data label
          = class_rows (rows_with_point_cloud example_point_clouds example_lines) label"
    by auto
  have "''1.1.1.1'' \<in> EC ` set example_data"
    by (simp add: example_data_def)
  with classes have "MIN_SAMPLES \<le> class_count example_data ''1.1.1.1''
      \<and> class_rows example_data ''1.1.1.1''
          = class_rows (rows_with_point_cloud example_point_clouds example_lines) ''1.1.1.1''"
    by blast
  moreover have "length example_data = 10"
    by (simp add: example_data_def)
  ultimately show ?thesis using example_balanced by simp
qed

text \<open>
  Ten lines of the class \<open>1.1.1.1\<close>, nine of them with a point cloud: the class has ten
  rows in the input and no row of it is written.
\<close>

theorem balanced_data_set_counterexample:
  "length (filter (\<lambda>(u, e). e = ''1.1.1.1'') sparse_lines) = 10
   \<and> balanced_data_set [''P.txt''] sparse_lines = Inr []"
  by code_simp

end
